theory Spec2Isabelle
  imports Complex_Main "HOL-Library.Product_Lexorder"
begin

section \<open>Python values used by \<open>recur_scan/features.py\<close>\<close>

text \<open>
  Exceptions are values: every function of the module that can raise returns
  \<open>py_error + 'a\<close>, with \<open>Inl\<close> for the exception that reaches the caller.
\<close>

datatype py_error = ValueError | IndexError | ZeroDivisionError | OverflowError | StatisticsError

definition bind_err :: "py_error + 'a \<Rightarrow> ('a \<Rightarrow> py_error + 'b) \<Rightarrow> py_error + 'b" where
  "bind_err r f = (case r of Inl e \<Rightarrow> Inl e | Inr v \<Rightarrow> f v)"

subsection \<open>Strings and \<open>int(str)\<close>\<close>

text \<open>
  A Python \<open>str\<close> is modelled as a \<open>string\<close>; the model covers the strings whose
  code points are all below 256 and treats only the ASCII digits as digits.
\<close>

definition is_digit :: "char \<Rightarrow> bool" where
  "is_digit c = (48 \<le> (of_char c :: nat) \<and> (of_char c :: nat) \<le> 57)"

definition in_class :: "nat \<Rightarrow> nat \<Rightarrow> char \<Rightarrow> bool" where
  \<comment> \<open>the regular-expression class \<open>[lo-hi]\<close> over ASCII digits \<open>lo\<close> to \<open>hi\<close>\<close>
  "in_class lo hi c = (48 + lo \<le> (of_char c :: nat) \<and> (of_char c :: nat) \<le> 48 + hi)"

definition digit_val :: "char \<Rightarrow> int" where
  "digit_val c = int (of_char c) - 48"

definition is_space :: "char \<Rightarrow> bool" where
  \<comment> \<open>the white space that \<open>int\<close> strips below code point 256: TAB to CR, the blank,
      NEL and the no-break space\<close>
  "is_space c = (let n = (of_char c :: nat) in (9 \<le> n \<and> n \<le> 13) \<or> n = 32 \<or> n = 133 \<or> n = 160)"

definition strip :: "string \<Rightarrow> string" where
  "strip s = rev (dropWhile is_space (rev (dropWhile is_space s)))"

fun digits_us :: "bool \<Rightarrow> string \<Rightarrow> int list option" where
  \<comment> \<open>decimal digits with single underscores between digits; the flag tells whether the
      previous character was a digit\<close>
  "digits_us prev [] = (if prev then Some [] else None)"
| "digits_us prev (c # cs) =
     (if is_digit c then map_option (\<lambda>ds. digit_val c # ds) (digits_us True cs)
      else if c = CHR ''_'' \<and> prev then
        (case cs of [] \<Rightarrow> None | _ \<Rightarrow> digits_us False cs)
      else None)"

definition int_max_str_digits :: nat where
  "int_max_str_digits = 4300"

definition py_int :: "string \<Rightarrow> py_error + int" where
  \<comment> \<open>\<open>int(s)\<close> for a string \<open>s\<close>, base 10\<close>
  "py_int s =
     (let body = strip s;
          (neg, ds) = (case body of
                         c # r \<Rightarrow> if c = CHR ''-'' then (True, r)
                                  else if c = CHR ''+'' then (False, r) else (False, body)
                       | [] \<Rightarrow> (False, body))
      in case digits_us False ds of
           None \<Rightarrow> Inl ValueError
         | Some vs \<Rightarrow>
             if int_max_str_digits < length vs then Inl ValueError
             else let n = foldl (\<lambda>acc d. 10 * acc + d) 0 vs
                  in Inr (if neg then - n else n))"

fun split_on :: "char \<Rightarrow> string \<Rightarrow> string list" where
  \<comment> \<open>\<open>s.split(sep)\<close> for a one-character separator: never the empty list\<close>
  "split_on sep [] = [[]]"
| "split_on sep (c # cs) =
     (if c = sep then [] # split_on sep cs
      else (case split_on sep cs of f # fs \<Rightarrow> (c # f) # fs | [] \<Rightarrow> [[c]]))"

section \<open>Floats\<close>

text \<open>
  A Python \<open>float\<close> is an IEEE 754 binary64 value: a finite value is modelled by the
  rational it denotes, the two zeros are identified (no operation of the module tells
  them apart), and the infinities and the NaN are values of their own. Every arithmetic
  operation computes the exact rational result and rounds it to the nearest binary64
  value, ties to even.
\<close>

datatype pyfloat = Fin rat | PInf | NInf | NaN

datatype pyval = PyInt int | PyFloat pyfloat | PyBool bool

function bit_length :: "int \<Rightarrow> int" where
  \<comment> \<open>\<open>n.bit_length()\<close>: the number of bits of \<open>abs n\<close>\<close>
  "bit_length n = (if n = 0 then 0 else 1 + bit_length (abs n div 2))"
  by pat_completeness auto
termination
  by (relation "measure (\<lambda>n. nat (abs n))") auto

declare bit_length.simps [simp del]

definition pow2 :: "int \<Rightarrow> rat" where
  "pow2 e = (if 0 \<le> e then 2 ^ nat e else 1 / 2 ^ nat (- e))"

definition ilog2 :: "rat \<Rightarrow> int" where
  \<comment> \<open>the exponent \<open>e\<close> with \<open>2 ^ e \<le> q < 2 ^ (e + 1)\<close>, for \<open>0 < q\<close>\<close>
  "ilog2 q =
     (let (p, d) = quotient_of q;
          e0 = bit_length p - bit_length d
      in if pow2 e0 \<le> q then e0 else e0 - 1)"

definition round_half_even :: "rat \<Rightarrow> int" where
  "round_half_even x =
     (let f = \<lfloor>x\<rfloor>; r = x - of_int f
      in if r < 1 / 2 then f else if 1 / 2 < r then f + 1 else if even f then f else f + 1)"

definition round_pos :: "rat \<Rightarrow> pyfloat" where
  \<comment> \<open>rounding of a positive rational: 53 significant bits, exponents from -1022 (below
      it the subnormal spacing \<open>2 ^ -1074\<close>) to 1023, overflow to infinity\<close>
  "round_pos q =
     (let e = max (ilog2 q) (- 1022);
          m = round_half_even (q / pow2 (e - 52))
      in if 1023 < e \<or> (e = 1023 \<and> 2 ^ 53 \<le> m) then PInf
         else Fin (of_int m * pow2 (e - 52)))"

definition flt_neg :: "pyfloat \<Rightarrow> pyfloat" where
  "flt_neg v = (case v of Fin x \<Rightarrow> Fin (- x) | PInf \<Rightarrow> NInf | NInf \<Rightarrow> PInf | NaN \<Rightarrow> NaN)"

definition round64 :: "rat \<Rightarrow> pyfloat" where
  "round64 q = (if q = 0 then Fin 0 else if 0 < q then round_pos q else flt_neg (round_pos (- q)))"

definition flt_abs :: "pyfloat \<Rightarrow> pyfloat" where
  "flt_abs v = (case v of Fin x \<Rightarrow> Fin (abs x) | PInf \<Rightarrow> PInf | NInf \<Rightarrow> PInf | NaN \<Rightarrow> NaN)"

fun flt_mul :: "pyfloat \<Rightarrow> pyfloat \<Rightarrow> pyfloat" where
  "flt_mul NaN w = NaN"
| "flt_mul v NaN = NaN"
| "flt_mul (Fin x) (Fin y) = round64 (x * y)"
| "flt_mul (Fin x) PInf = (if x = 0 then NaN else if 0 < x then PInf else NInf)"
| "flt_mul (Fin x) NInf = (if x = 0 then NaN else if 0 < x then NInf else PInf)"
| "flt_mul PInf (Fin y) = (if y = 0 then NaN else if 0 < y then PInf else NInf)"
| "flt_mul NInf (Fin y) = (if y = 0 then NaN else if 0 < y then NInf else PInf)"
| "flt_mul PInf PInf = PInf"
| "flt_mul PInf NInf = NInf"
| "flt_mul NInf PInf = NInf"
| "flt_mul NInf NInf = PInf"

fun flt_add :: "pyfloat \<Rightarrow> pyfloat \<Rightarrow> pyfloat" where
  "flt_add NaN w = NaN"
| "flt_add v NaN = NaN"
| "flt_add (Fin x) (Fin y) = round64 (x + y)"
| "flt_add (Fin x) w = w"
| "flt_add v (Fin y) = v"
| "flt_add PInf PInf = PInf"
| "flt_add NInf NInf = NInf"
| "flt_add PInf NInf = NaN"
| "flt_add NInf PInf = NaN"

definition flt_sub :: "pyfloat \<Rightarrow> pyfloat \<Rightarrow> pyfloat" where
  "flt_sub v w = flt_add v (flt_neg w)"

fun flt_div :: "pyfloat \<Rightarrow> pyfloat \<Rightarrow> py_error + pyfloat" where
  \<comment> \<open>\<open>v / w\<close>: a zero divisor raises before anything else is looked at\<close>
  "flt_div v (Fin y) =
     (if y = 0 then Inl ZeroDivisionError
      else Inr (case v of
                  Fin x \<Rightarrow> round64 (x / y)
                | PInf \<Rightarrow> if 0 < y then PInf else NInf
                | NInf \<Rightarrow> if 0 < y then NInf else PInf
                | NaN \<Rightarrow> NaN))"
| "flt_div v NaN = Inr NaN"
| "flt_div (Fin x) w = Inr (Fin 0)"
| "flt_div v w = Inr NaN"

definition fmod :: "rat \<Rightarrow> rat \<Rightarrow> rat" where
  \<comment> \<open>C's \<open>fmod\<close> on finite values, divisor not zero: exact, with the sign of \<open>x\<close>\<close>
  "fmod x y = (let q = x / y; n = (if 0 \<le> q then \<lfloor>q\<rfloor> else \<lceil>q\<rceil>) in x - y * of_int n)"

fun flt_mod :: "pyfloat \<Rightarrow> pyfloat \<Rightarrow> py_error + pyfloat" where
  \<comment> \<open>\<open>v % w\<close>: \<open>fmod\<close>, then the divisor is added when the signs differ\<close>
  "flt_mod v (Fin y) =
     (if y = 0 then Inl ZeroDivisionError
      else Inr (case v of
                  Fin x \<Rightarrow>
                    (let m = fmod x y
                     in if m \<noteq> 0 \<and> ((y < 0) \<noteq> (m < 0)) then round64 (m + y) else Fin m)
                | _ \<Rightarrow> NaN))"
| "flt_mod (Fin x) PInf = Inr (if x < 0 then PInf else Fin x)"
| "flt_mod (Fin x) NInf = Inr (if 0 < x then NInf else Fin x)"
| "flt_mod v w = Inr NaN"

fun flt_lt :: "pyfloat \<Rightarrow> pyfloat \<Rightarrow> bool" where
  "flt_lt NaN w = False"
| "flt_lt v NaN = False"
| "flt_lt (Fin x) (Fin y) = (x < y)"
| "flt_lt v NInf = False"
| "flt_lt PInf w = False"
| "flt_lt v w = True"

definition flt_eq :: "pyfloat \<Rightarrow> pyfloat \<Rightarrow> bool" where
  "flt_eq v w = (v \<noteq> NaN \<and> v = w)"

definition flt_le :: "pyfloat \<Rightarrow> pyfloat \<Rightarrow> bool" where
  "flt_le v w = (flt_lt v w \<or> flt_eq v w)"

definition int_truediv :: "int \<Rightarrow> int \<Rightarrow> py_error + pyfloat" where
  \<comment> \<open>\<open>a / b\<close> on integers: the correctly rounded quotient\<close>
  "int_truediv a b =
     (if b = 0 then Inl ZeroDivisionError
      else case round64 (of_int a / of_int b) of
             Fin r \<Rightarrow> Inr (Fin r)
           | _ \<Rightarrow> Inl OverflowError)"

fun py_eq :: "pyval \<Rightarrow> pyval \<Rightarrow> bool" where
  \<comment> \<open>\<open>==\<close> on numbers: by exact value, with \<open>True\<close> as 1 and \<open>False\<close> as 0\<close>
  "py_eq (PyFloat v) (PyFloat w) = flt_eq v w"
| "py_eq (PyFloat v) (PyInt j) = flt_eq v (Fin (of_int j))"
| "py_eq (PyFloat v) (PyBool c) = flt_eq v (Fin (if c then 1 else 0))"
| "py_eq (PyInt i) (PyFloat w) = flt_eq (Fin (of_int i)) w"
| "py_eq (PyInt i) (PyInt j) = (i = j)"
| "py_eq (PyInt i) (PyBool c) = (i = (if c then 1 else 0))"
| "py_eq (PyBool b) (PyFloat w) = flt_eq (Fin (if b then 1 else 0)) w"
| "py_eq (PyBool b) (PyInt j) = ((if b then 1 else 0) = j)"
| "py_eq (PyBool b) (PyBool c) = (b = c)"

section \<open>Dates: \<open>datetime.strptime(date, "%Y-%m-%d")\<close>\<close>

record datetime =
  year :: int
  month :: int
  day :: int

definition is_leap :: "int \<Rightarrow> bool" where
  "is_leap y = (y mod 4 = 0 \<and> (y mod 100 \<noteq> 0 \<or> y mod 400 = 0))"

definition days_in_month :: "int \<Rightarrow> int \<Rightarrow> int" where
  "days_in_month y m =
     (if m = 2 then (if is_leap y then 29 else 28)
      else if m = 4 \<or> m = 6 \<or> m = 9 \<or> m = 11 then 30 else 31)"

definition days_before_year :: "int \<Rightarrow> int" where
  "days_before_year y = (let p = y - 1 in p * 365 + p div 4 - p div 100 + p div 400)"

definition days_before_month :: "int \<Rightarrow> int \<Rightarrow> int" where
  "days_before_month y m =
     [0, 31, 59, 90, 120, 151, 181, 212, 243, 273, 304, 334] ! nat (m - 1)
       + (if 2 < m \<and> is_leap y then 1 else 0)"

definition toordinal :: "datetime \<Rightarrow> int" where
  \<comment> \<open>proleptic Gregorian ordinal: 0001-01-01 is day 1\<close>
  "toordinal d = days_before_year (year d) + days_before_month (year d) (month d) + day d"

definition weekday :: "datetime \<Rightarrow> int" where
  \<comment> \<open>Monday is 0, Sunday is 6\<close>
  "weekday d = (toordinal d + 6) mod 7"

definition make_datetime :: "int \<Rightarrow> int \<Rightarrow> int \<Rightarrow> py_error + datetime" where
  \<comment> \<open>the constructor's range checks\<close>
  "make_datetime y m d =
     (if \<not> (1 \<le> y \<and> y \<le> 9999) then Inl ValueError
      else if \<not> (1 \<le> m \<and> m \<le> 12) then Inl ValueError
      else if \<not> (1 \<le> d \<and> d \<le> days_in_month y m) then Inl ValueError
      else Inr \<lparr>year = y, month = m, day = d\<rparr>)"

text \<open>
  The format \<open>%Y-%m-%d\<close> is the regular expression
  \<open>(\d\d\d\d)-(1[0-2]|0[1-9]|[1-9])-(3[0-1]|[1-2]\d|0[1-9]|[1-9]| [1-9])\<close>, matched at the
  start of the string; the alternatives are tried in this order, and a match that leaves
  characters unconverted is an error.
\<close>

definition match_Y :: "string \<Rightarrow> (string \<times> string) option" where
  "match_Y s =
     (case s of
        a # b # c # d # r \<Rightarrow>
          if is_digit a \<and> is_digit b \<and> is_digit c \<and> is_digit d then Some ([a, b, c, d], r)
          else None
      | _ \<Rightarrow> None)"

definition alts_m :: "string \<Rightarrow> (string \<times> string) list" where
  "alts_m s =
     (case s of
        a # b # r \<Rightarrow>
          (if a = CHR ''1'' \<and> in_class 0 2 b then [([a, b], r)] else []) @
          (if a = CHR ''0'' \<and> in_class 1 9 b then [([a, b], r)] else [])
      | _ \<Rightarrow> []) @
     (case s of a # r \<Rightarrow> if in_class 1 9 a then [([a], r)] else [] | [] \<Rightarrow> [])"

definition alts_d :: "string \<Rightarrow> (string \<times> string) list" where
  "alts_d s =
     (case s of
        a # b # r \<Rightarrow>
          (if a = CHR ''3'' \<and> in_class 0 1 b then [([a, b], r)] else []) @
          (if in_class 1 2 a \<and> is_digit b then [([a, b], r)] else []) @
          (if a = CHR ''0'' \<and> in_class 1 9 b then [([a, b], r)] else [])
      | _ \<Rightarrow> []) @
     (case s of a # r \<Rightarrow> if in_class 1 9 a then [([a], r)] else [] | [] \<Rightarrow> []) @
     (case s of
        a # b # r \<Rightarrow> if a = CHR '' '' \<and> in_class 1 9 b then [([a, b], r)] else []
      | _ \<Rightarrow> [])"

definition expect_dash :: "string \<Rightarrow> string option" where
  "expect_dash s = (case s of c # r \<Rightarrow> if c = CHR ''-'' then Some r else None | [] \<Rightarrow> None)"

fun first_match :: "('a \<Rightarrow> 'b option) \<Rightarrow> 'a list \<Rightarrow> 'b option" where
  "first_match f [] = None"
| "first_match f (x # xs) = (case f x of Some y \<Rightarrow> Some y | None \<Rightarrow> first_match f xs)"

definition match_format :: "string \<Rightarrow> (string \<times> string \<times> string \<times> string) option" where
  \<comment> \<open>the groups Y, m, d and the unconverted rest of the string\<close>
  "match_format s =
     (case match_Y s of
        None \<Rightarrow> None
      | Some (y, r1) \<Rightarrow>
          (case expect_dash r1 of
             None \<Rightarrow> None
           | Some r2 \<Rightarrow>
               first_match
                 (\<lambda>(m, r3). case expect_dash r3 of
                               None \<Rightarrow> None
                             | Some r4 \<Rightarrow>
                                 first_match (\<lambda>(d, r5). Some (y, m, d, r5)) (alts_d r4))
                 (alts_m r2)))"

definition strptime :: "string \<Rightarrow> py_error + datetime" where
  "strptime s =
     (case match_format s of
        None \<Rightarrow> Inl ValueError
      | Some (y, m, d, rest) \<Rightarrow>
          if rest \<noteq> [] then Inl ValueError
          else bind_err (py_int y) (\<lambda>yv.
               bind_err (py_int m) (\<lambda>mv.
               bind_err (py_int d) (\<lambda>dv. make_datetime yv mv dv))))"

section \<open>The routines of the \<open>statistics\<close> module\<close>

function isqrt :: "int \<Rightarrow> int" where
  \<comment> \<open>\<open>math.isqrt\<close>: the floor of the square root of a non-negative integer\<close>
  "isqrt n =
     (if n < 2 then n
      else let r = 2 * isqrt (n div 4) in if (r + 1) * (r + 1) \<le> n then r + 1 else r)"
  by pat_completeness auto
termination
  by (relation "measure nat") auto

declare isqrt.simps [simp del]

definition integer_sqrt_of_frac_rto :: "int \<Rightarrow> int \<Rightarrow> int" where
  \<comment> \<open>the square root of \<open>n / m\<close> rounded to odd: \<open>a | (a * a * m != n)\<close>\<close>
  "integer_sqrt_of_frac_rto n m =
     (let a = isqrt (n div m) in if a * a * m \<noteq> n \<and> even a then a + 1 else a)"

definition sqrt_bit_width :: int where
  "sqrt_bit_width = 2 * 53 + 3"

definition float_sqrt_of_frac :: "int \<Rightarrow> int \<Rightarrow> py_error + pyfloat" where
  "float_sqrt_of_frac n m =
     (let q = (bit_length n - bit_length m - sqrt_bit_width) div 2
      in if 0 \<le> q then
           int_truediv (integer_sqrt_of_frac_rto n (m * 2 ^ nat (2 * q)) * 2 ^ nat q) 1
         else
           int_truediv (integer_sqrt_of_frac_rto (n * 2 ^ nat (- 2 * q)) m) (2 ^ nat (- q)))"

definition mean :: "int list \<Rightarrow> py_error + pyval" where
  \<comment> \<open>on integers: the exact quotient, an \<open>int\<close> when it is whole and a \<open>float\<close> otherwise\<close>
  "mean data =
     (if data = [] then Inl StatisticsError
      else let (p, d) = quotient_of (of_int (sum_list data) / of_int (int (length data)))
           in if d = 1 then Inr (PyInt p) else map_sum id PyFloat (int_truediv p d))"

definition stdev :: "int list \<Rightarrow> py_error + pyfloat" where
  \<comment> \<open>the sample standard deviation: the exact mean square deviation, then its root\<close>
  "stdev data =
     (let n = int (length data);
          sx = sum_list data;
          sxx = sum_list (map (\<lambda>x. x * x) data)
      in if n < 2 then Inl StatisticsError
         else let ssd = (of_int n * of_int sxx - of_int sx * of_int sx) / of_int n;
                  (p, d) = quotient_of (ssd / of_int (n - 1))
              in float_sqrt_of_frac p d)"

section \<open>Regular-expression search for vendor terms\<close>

text \<open>
  \<open>re.search(r"\b(t1|t2|...)\b", name, re.IGNORECASE)\<close> for literal lower-case terms:
  some position of the name starts a term, compared without regard to ASCII case, with a
  word boundary before and after it.
\<close>

definition is_word_char :: "char \<Rightarrow> bool" where
  \<comment> \<open>\<open>\w\<close> below code point 256\<close>
  "is_word_char c =
     (let n = (of_char c :: nat)
      in (48 \<le> n \<and> n \<le> 57) \<or> (65 \<le> n \<and> n \<le> 90) \<or> n = 95 \<or> (97 \<le> n \<and> n \<le> 122) \<or>
         n = 170 \<or> n = 178 \<or> n = 179 \<or> n = 181 \<or> n = 185 \<or> n = 186 \<or>
         (188 \<le> n \<and> n \<le> 190) \<or> (192 \<le> n \<and> n \<le> 214) \<or> (216 \<le> n \<and> n \<le> 246) \<or> 248 \<le> n)"

definition lower_ascii :: "char \<Rightarrow> char" where
  "lower_ascii c = (let n = (of_char c :: nat) in if 65 \<le> n \<and> n \<le> 90 then char_of (n + 32) else c)"

definition word_at :: "char option \<Rightarrow> bool" where
  "word_at c = (case c of None \<Rightarrow> False | Some x \<Rightarrow> is_word_char x)"

definition first_char :: "string \<Rightarrow> char option" where
  "first_char s = (case s of [] \<Rightarrow> None | c # _ \<Rightarrow> Some c)"

definition term_here :: "char option \<Rightarrow> string \<Rightarrow> string \<Rightarrow> bool" where
  \<comment> \<open>the term \<open>w\<close> starts the rest \<open>s\<close> of the name, after the character \<open>prev\<close>\<close>
  "term_here prev s w =
     (let k = length w; hit = take k s
      in k \<le> length s \<and> map lower_ascii hit = w \<and>
         word_at prev \<noteq> word_at (first_char s) \<and>
         word_at (if hit = [] then prev else Some (last hit)) \<noteq> word_at (first_char (drop k s)))"

fun re_search :: "string list \<Rightarrow> char option \<Rightarrow> string \<Rightarrow> bool" where
  "re_search terms prev [] = list_ex (term_here prev []) terms"
| "re_search terms prev (c # cs) =
     (list_ex (term_here prev (c # cs)) terms \<or> re_search terms (Some c) cs)"

section \<open>Transactions\<close>

text \<open>
  Modelled from the spec: the class \<open>Transaction\<close> of \<open>recur_scan.transactions\<close>, an
  immutable record with at least a name, an amount and a date string. Any further field
  lives in the record's extension.
\<close>

record Transaction =
  name :: string
  date :: string
  amount :: pyfloat

section \<open>The feature functions\<close>

definition get_is_always_recurring :: "'a Transaction_scheme \<Rightarrow> bool" where
  "get_is_always_recurring transaction =
     re_search [''netflix'', ''spotify'', ''google storage'', ''hulu''] None (name transaction)"

definition get_is_insurance :: "'a Transaction_scheme \<Rightarrow> bool" where
  "get_is_insurance transaction =
     re_search [''insur'', ''geico'', ''allstate'', ''state farm'', ''progressive'', ''insur'',
                ''insuranc''] None (name transaction)"

definition get_is_utility :: "'a Transaction_scheme \<Rightarrow> bool" where
  "get_is_utility transaction =
     re_search [''water'', ''electricity'', ''gas'', ''internet'', ''cable'', ''energy'', ''utilit'',
                ''utility''] None (name transaction)"

definition private_get_days :: "string \<Rightarrow> py_error + int" where
  \<comment> \<open>\<open>_get_days\<close>: the days since 1970-01-01\<close>
  "private_get_days d =
     bind_err (strptime d)
       (\<lambda>dt. Inr (toordinal dt - toordinal \<lparr>year = 1970, month = 1, day = 1\<rparr>))"

fun days_apart_loop ::
  "int \<Rightarrow> int \<Rightarrow> int \<Rightarrow> 'a Transaction_scheme list \<Rightarrow> int \<Rightarrow> py_error + int" where
  \<comment> \<open>the \<open>for\<close> loop of \<open>get_n_transactions_days_apart\<close>, with the counter \<open>n_txs\<close>\<close>
  "days_apart_loop transaction_days n_days_apart n_days_off [] n_txs = Inr n_txs"
| "days_apart_loop transaction_days n_days_apart n_days_off (t # ts) n_txs =
     bind_err (private_get_days (date t)) (\<lambda>t_days.
       let days_diff = abs (t_days - transaction_days)
       in if days_diff < n_days_apart - n_days_off then
            days_apart_loop transaction_days n_days_apart n_days_off ts n_txs
          else if n_days_apart = 0 then Inl ZeroDivisionError
          else let remainder = days_diff mod n_days_apart
               in if remainder \<le> n_days_off \<or> n_days_apart - remainder \<le> n_days_off then
                    days_apart_loop transaction_days n_days_apart n_days_off ts (n_txs + 1)
                  else days_apart_loop transaction_days n_days_apart n_days_off ts n_txs)"

definition get_n_transactions_days_apart ::
  "'a Transaction_scheme \<Rightarrow> 'a Transaction_scheme list \<Rightarrow> int \<Rightarrow> int \<Rightarrow> py_error + int" where
  "get_n_transactions_days_apart transaction all_transactions n_days_apart n_days_off =
     bind_err (private_get_days (date transaction)) (\<lambda>transaction_days.
       days_apart_loop transaction_days n_days_apart n_days_off all_transactions 0)"

definition private_get_day :: "string \<Rightarrow> py_error + int" where
  \<comment> \<open>\<open>_get_day\<close>: \<open>int(date.split("-")[2])\<close>\<close>
  "private_get_day d =
     (let fields = split_on (CHR ''-'') d
      in if length fields \<le> 2 then Inl IndexError else py_int (fields ! 2))"

fun same_day_filter ::
  "'a Transaction_scheme \<Rightarrow> int \<Rightarrow> 'a Transaction_scheme list \<Rightarrow>
     py_error + 'a Transaction_scheme list" where
  \<comment> \<open>the list comprehension: both dates are converted again for every entry\<close>
  "same_day_filter transaction n_days_off [] = Inr []"
| "same_day_filter transaction n_days_off (t # ts) =
     bind_err (private_get_day (date t)) (\<lambda>a.
     bind_err (private_get_day (date transaction)) (\<lambda>b.
     bind_err (same_day_filter transaction n_days_off ts) (\<lambda>kept.
       Inr (if abs (a - b) \<le> n_days_off then t # kept else kept))))"

definition get_n_transactions_same_day ::
  "'a Transaction_scheme \<Rightarrow> 'a Transaction_scheme list \<Rightarrow> int \<Rightarrow> py_error + int" where
  "get_n_transactions_same_day transaction all_transactions n_days_off =
     bind_err (same_day_filter transaction n_days_off all_transactions)
       (\<lambda>kept. Inr (int (length kept)))"

definition get_ends_in_99 :: "'a Transaction_scheme \<Rightarrow> py_error + bool" where
  "get_ends_in_99 transaction =
     bind_err (flt_mod (flt_mul (amount transaction) (Fin 100)) (Fin 100))
       (\<lambda>r. Inr (flt_eq r (Fin 99)))"

definition catch_ValueError :: "py_error + int \<Rightarrow> py_error + int" where
  \<comment> \<open>\<open>try: ... except ValueError: return -1\<close>\<close>
  "catch_ValueError r =
     (case r of Inr v \<Rightarrow> Inr v | Inl e \<Rightarrow> if e = ValueError then Inr (- 1) else Inl e)"

definition get_year :: "'a Transaction_scheme \<Rightarrow> py_error + int" where
  "get_year transaction =
     catch_ValueError (bind_err (strptime (date transaction)) (\<lambda>d. Inr (year d)))"

definition get_month :: "'a Transaction_scheme \<Rightarrow> py_error + int" where
  "get_month transaction =
     catch_ValueError (bind_err (strptime (date transaction)) (\<lambda>d. Inr (month d)))"

definition get_day :: "'a Transaction_scheme \<Rightarrow> py_error + int" where
  "get_day transaction =
     catch_ValueError (bind_err (strptime (date transaction)) (\<lambda>d. Inr (day d)))"

definition get_day_of_week :: "'a Transaction_scheme \<Rightarrow> py_error + int" where
  "get_day_of_week transaction =
     catch_ValueError (bind_err (strptime (date transaction)) (\<lambda>d. Inr (weekday d)))"

definition is_recurring_mobile_transaction :: "'a Transaction_scheme \<Rightarrow> bool" where
  "is_recurring_mobile_transaction transaction =
     re_search [''t-mobile'', ''at&t'', ''verizon'', ''boost mobile'', ''tello mobile''] None
       (name transaction)"

definition get_min_transaction_amount :: "'a Transaction_scheme list \<Rightarrow> pyfloat" where
  \<comment> \<open>\<open>min\<close> keeps the first value and replaces it by each later one that is \<open><\<close> it\<close>
  "get_min_transaction_amount all_transactions =
     (case all_transactions of
        [] \<Rightarrow> Fin 0
      | t # ts \<Rightarrow> foldl (\<lambda>cur item. if flt_lt item cur then item else cur) (amount t)
                   (map amount ts))"

definition get_max_transaction_amount :: "'a Transaction_scheme list \<Rightarrow> pyfloat" where
  "get_max_transaction_amount all_transactions =
     (case all_transactions of
        [] \<Rightarrow> Fin 0
      | t # ts \<Rightarrow> foldl (\<lambda>cur item. if flt_lt cur item then item else cur) (amount t)
                   (map amount ts))"

fun sequence_err :: "(py_error + 'a) list \<Rightarrow> py_error + 'a list" where
  \<comment> \<open>the results in order, or the first exception\<close>
  "sequence_err [] = Inr []"
| "sequence_err (r # rs) = bind_err r (\<lambda>v. bind_err (sequence_err rs) (\<lambda>vs. Inr (v # vs)))"

fun count_consistent :: "pyfloat \<Rightarrow> pyfloat list \<Rightarrow> py_error + int" where
  \<comment> \<open>\<open>sum(1 for amt in amounts if abs(amt - base_amount) / base_amount <= 0.05)\<close>\<close>
  "count_consistent base_amount [] = Inr 0"
| "count_consistent base_amount (amt # amts) =
     bind_err (flt_div (flt_abs (flt_sub amt base_amount)) base_amount) (\<lambda>ratio.
     bind_err (count_consistent base_amount amts) (\<lambda>c.
       Inr ((if flt_le ratio (round64 (1 / 20)) then 1 else 0) + c)))"

type_synonym py_dict = "(string \<times> pyval) list"

definition get_transaction_intervals :: "'a Transaction_scheme list \<Rightarrow> py_error + py_dict" where
  "get_transaction_intervals transactions =
     (if length transactions < 2 then
        Inr [(''avg_days_between_transactions'', PyFloat (Fin 0)),
             (''std_dev_days_between_transactions'', PyFloat (Fin 0)),
             (''monthly_recurrence'', PyInt 0),
             (''same_weekday'', PyInt 0),
             (''same_amount'', PyInt 0)]
      else
        bind_err (sequence_err (map (\<lambda>trans. strptime (date trans)) transactions)) (\<lambda>parsed.
        let dates = sort_key (\<lambda>d. (year d, month d, day d)) parsed;
            intervals = map (\<lambda>i. toordinal (dates ! i) - toordinal (dates ! (i - 1)))
                          [1..<length dates]
        in
        bind_err (if intervals \<noteq> [] then mean intervals else Inr (PyFloat (Fin 0))) (\<lambda>avg_days.
        bind_err (if 1 < length intervals then stdev intervals else Inr (Fin 0)) (\<lambda>std_dev_days.
        let monthly_count = int (length (filter (\<lambda>gap. 23 \<le> gap \<and> gap \<le> 38) intervals)) in
        bind_err (if intervals \<noteq> [] then int_truediv monthly_count (int (length intervals))
                  else Inr (Fin 0)) (\<lambda>monthly_recurrence.
        let weekdays = map weekday dates;
            same_weekday = (if length (remdups weekdays) = 1 then 1 else 0);
            amounts = map amount transactions
        in
        (case amounts of
           [] \<Rightarrow> Inl IndexError
         | base_amount # _ \<Rightarrow>
             bind_err (if flt_eq base_amount (Fin 0) then Inr (Fin 0)
                       else bind_err (count_consistent base_amount amounts)
                              (\<lambda>c. int_truediv c (int (length amounts)))) (\<lambda>consistent_amount.
             Inr [(''avg_days_between_transactions'', avg_days),
                  (''std_dev_days_between_transactions'', PyFloat std_dev_days),
                  (''monthly_recurrence'', PyFloat monthly_recurrence),
                  (''same_weekday'', PyInt same_weekday),
                  (''same_amount'', PyFloat consistent_amount)])))))))"

definition get_n_transactions_same_vendor ::
  "'a Transaction_scheme \<Rightarrow> 'a Transaction_scheme list \<Rightarrow> int" where
  "get_n_transactions_same_vendor transaction all_transactions =
     int (length (filter (\<lambda>t. name t = name transaction) all_transactions))"

definition get_percent_transactions_same_amount ::
  "'a Transaction_scheme \<Rightarrow> 'a Transaction_scheme list \<Rightarrow> py_error + pyfloat" where
  "get_percent_transactions_same_amount transaction all_transactions =
     (if all_transactions = [] then Inr (Fin 0)
      else let n_same_amount =
                 int (length (filter (\<lambda>t. flt_eq (amount t) (amount transaction)) all_transactions))
           in int_truediv n_same_amount (int (length all_transactions)))"

definition get_n_transactions_same_amount ::
  "'a Transaction_scheme \<Rightarrow> 'a Transaction_scheme list \<Rightarrow> int" where
  "get_n_transactions_same_amount transaction all_transactions =
     int (length (filter (\<lambda>t. flt_eq (amount t) (amount transaction)) all_transactions))"

fun dict_set :: "string \<Rightarrow> pyval \<Rightarrow> py_dict \<Rightarrow> py_dict" where
  "dict_set k v [] = [(k, v)]"
| "dict_set k v ((k', v') # kvs) =
     (if k = k' then (k, v) # kvs else (k', v') # dict_set k v kvs)"

definition dict_update :: "py_dict \<Rightarrow> py_dict \<Rightarrow> py_dict" where
  "dict_update d other = foldl (\<lambda>acc (k, v). dict_set k v acc) d other"

fun dict_literal :: "(string \<times> (py_error + pyval)) list \<Rightarrow> py_error + py_dict" where
  \<comment> \<open>a dictionary display: the values are computed in order, later keys replace earlier\<close>
  "dict_literal [] = Inr []"
| "dict_literal ((k, r) # krs) =
     bind_err r (\<lambda>v. bind_err (dict_literal krs) (\<lambda>d. Inr (dict_update [(k, v)] d)))"

definition get_features ::
  "'a Transaction_scheme \<Rightarrow> 'a Transaction_scheme list \<Rightarrow> py_error + py_dict" where
  "get_features transaction all_transactions =
     bind_err
       (dict_literal
          [(''n_transactions_same_amount'',
              Inr (PyInt (get_n_transactions_same_amount transaction all_transactions))),
           (''percent_transactions_same_amount'',
              map_sum id PyFloat (get_percent_transactions_same_amount transaction all_transactions)),
           (''n_transactions_same_vendor'',
              Inr (PyInt (get_n_transactions_same_vendor transaction all_transactions))),
           (''max_transaction_amount'', Inr (PyFloat (get_max_transaction_amount all_transactions))),
           (''min_transaction_amount'', Inr (PyFloat (get_min_transaction_amount all_transactions))),
           (''is_recurring_mobile_transaction'',
              Inr (PyBool (is_recurring_mobile_transaction transaction))),
           (''day_of_week'', map_sum id PyInt (get_day_of_week transaction)),
           (''month'', map_sum id PyInt (get_month transaction)),
           (''day'', map_sum id PyInt (get_day transaction)),
           (''year'', map_sum id PyInt (get_year transaction)),
           (''ends_in_99'', map_sum id PyBool (get_ends_in_99 transaction)),
           (''amount'', Inr (PyFloat (amount transaction))),
           (''same_day_exact'',
              map_sum id PyInt (get_n_transactions_same_day transaction all_transactions 0)),
           (''same_day_off_1'',
              map_sum id PyInt (get_n_transactions_same_day transaction all_transactions 1)),
           (''same_day_off_2'',
              map_sum id PyInt (get_n_transactions_same_day transaction all_transactions 2)),
           (''14_days_apart_exact'',
              map_sum id PyInt (get_n_transactions_days_apart transaction all_transactions 14 0)),
           (''14_days_apart_off_by_1'',
              map_sum id PyInt (get_n_transactions_days_apart transaction all_transactions 14 1)),
           (''7_days_apart_exact'',
              map_sum id PyInt (get_n_transactions_days_apart transaction all_transactions 7 0)),
           (''7_days_apart_off_by_1'',
              map_sum id PyInt (get_n_transactions_days_apart transaction all_transactions 7 1)),
           (''is_insurance'', Inr (PyBool (get_is_insurance transaction))),
           (''is_utility'', Inr (PyBool (get_is_utility transaction))),
           (''is_always_recurring'', Inr (PyBool (get_is_always_recurring transaction)))])
       (\<lambda>features.
          bind_err (get_transaction_intervals all_transactions)
            (\<lambda>intervals_features. Inr (dict_update features intervals_features)))"

section \<open>The counting rule of the specification\<close>

definition spec_days_apart_counted :: "int \<Rightarrow> int \<Rightarrow> int \<Rightarrow> int \<Rightarrow> bool" where
  \<comment> \<open>the rule as the specification words it, for a history entry on epoch day
      \<open>entry_days\<close> and the transaction on epoch day \<open>transaction_days\<close>\<close>
  "spec_days_apart_counted transaction_days targetGap tolerance entry_days =
     (let diff = abs (entry_days - transaction_days);
          remainder = diff mod targetGap
      in targetGap - tolerance \<le> diff \<and>
         (remainder \<le> tolerance \<or> targetGap - remainder \<le> tolerance))"

section \<open>Example transactions\<close>

definition tx :: "string \<Rightarrow> string \<Rightarrow> pyfloat \<Rightarrow> Transaction" where
  \<comment> \<open>\<open>Transaction(name=n, date=d, amount=a)\<close>\<close>
  "tx n d a = \<lparr>name = n, date = d, amount = a\<rparr>"

definition netflix_tx :: "string \<Rightarrow> Transaction" where
  \<comment> \<open>a payment of 9.99 to Netflix on the given date; 9.99 is the nearest binary64 value\<close>
  "netflix_tx d = tx ''Netflix'' d (round64 (999 / 100))"

definition netflix_history :: "Transaction list" where
  \<comment> \<open>the scenario of the specification: three payments, fourteen days apart\<close>
  "netflix_history =
     [netflix_tx ''2024-01-01'', netflix_tx ''2024-01-15'', netflix_tx ''2024-01-29'']"

definition feature :: "py_error + py_dict \<Rightarrow> string \<Rightarrow> pyval option" where
  \<comment> \<open>\<open>features[key]\<close> of a returned dictionary; nothing when an exception was raised\<close>
  "feature r key = (case r of Inl e \<Rightarrow> None | Inr d \<Rightarrow> map_of d key)"

definition feature_is :: "py_error + py_dict \<Rightarrow> string \<Rightarrow> pyval \<Rightarrow> bool" where
  \<comment> \<open>\<open>features[key] == v\<close>\<close>
  "feature_is r key v = (case feature r key of None \<Rightarrow> False | Some x \<Rightarrow> py_eq x v)"

section \<open>Exceptions of the date conversions\<close>

lemma bind_err_Inr [simp]: "bind_err (Inr v) f = f v"
  by (simp add: bind_err_def)

lemma bind_err_Inl [simp]: "bind_err (Inl e) f = Inl e"
  by (simp add: bind_err_def)

lemma bind_err_eq_Inr:
  "bind_err r f = Inr y \<longleftrightarrow> (\<exists>v. r = Inr v \<and> f v = Inr y)"
  by (cases r) simp_all

lemma bind_err_eq_Inl:
  "bind_err r f = Inl e \<longleftrightarrow> r = Inl e \<or> (\<exists>v. r = Inr v \<and> f v = Inl e)"
  by (cases r) simp_all

lemma py_int_error: "py_int s = Inl e \<Longrightarrow> e = ValueError"
  by (auto simp: py_int_def Let_def split: prod.splits option.splits if_splits)

lemma make_datetime_error: "make_datetime y m d = Inl e \<Longrightarrow> e = ValueError"
  by (auto simp: make_datetime_def split: if_splits)

lemma strptime_error: "strptime s = Inl e \<Longrightarrow> e = ValueError"
  by (auto simp: strptime_def bind_err_eq_Inl split: option.splits prod.splits if_splits
           dest: py_int_error make_datetime_error)

lemma private_get_days_error: "private_get_days s = Inl e \<Longrightarrow> e = ValueError"
  by (auto simp: private_get_days_def bind_err_eq_Inl dest: strptime_error)

section \<open>Calendar components (claim C6)\<close>

text \<open>
  Claim C6. When \<open>strptime\<close> rejects the date string of a transaction, \<open>get_year\<close>,
  \<open>get_month\<close>, \<open>get_day\<close> and \<open>get_day_of_week\<close> each return the sentinel \<open>-1\<close> and no
  exception reaches the caller; when it accepts the string, they return the year, the
  month, the day of the month and the weekday of the parsed date.
\<close>

theorem calendar_components_sentinel:
  "(strptime (date t) = Inl e \<longrightarrow>
      get_year t = Inr (- 1) \<and> get_month t = Inr (- 1) \<and> get_day t = Inr (- 1) \<and>
      get_day_of_week t = Inr (- 1)) \<and>
   (strptime (date t) = Inr d \<longrightarrow>
      get_year t = Inr (year d) \<and> get_month t = Inr (month d) \<and> get_day t = Inr (day d) \<and>
      get_day_of_week t = Inr (weekday d))"
proof (intro conjI impI)
  assume bad: "strptime (date t) = Inl e"
  then have e: "e = ValueError" by (rule strptime_error)
  with bad show "get_year t = Inr (- 1)" "get_month t = Inr (- 1)" "get_day t = Inr (- 1)"
    "get_day_of_week t = Inr (- 1)"
    by (simp_all add: get_year_def get_month_def get_day_def get_day_of_week_def
        catch_ValueError_def)
next
  assume ok: "strptime (date t) = Inr d"
  then show "get_year t = Inr (year d)" "get_month t = Inr (month d)" "get_day t = Inr (day d)"
    "get_day_of_week t = Inr (weekday d)"
    by (simp_all add: get_year_def get_month_def get_day_def get_day_of_week_def
        catch_ValueError_def)
qed

theorem calendar_components_sentinel_witness:
  "strptime ''2024-13-40'' = Inl ValueError \<and>
   get_year \<lparr>name = ''x'', date = ''2024-13-40'', amount = Fin 1\<rparr> = Inr (- 1) \<and>
   get_month \<lparr>name = ''x'', date = ''2024-13-40'', amount = Fin 1\<rparr> = Inr (- 1) \<and>
   get_day \<lparr>name = ''x'', date = ''2024-13-40'', amount = Fin 1\<rparr> = Inr (- 1) \<and>
   get_day_of_week \<lparr>name = ''x'', date = ''2024-13-40'', amount = Fin 1\<rparr> = Inr (- 1) \<and>
   strptime ''2024-01-15'' = Inr \<lparr>year = 2024, month = 1, day = 15\<rparr> \<and>
   get_year \<lparr>name = ''x'', date = ''2024-01-15'', amount = Fin 1\<rparr> = Inr 2024 \<and>
   get_month \<lparr>name = ''x'', date = ''2024-01-15'', amount = Fin 1\<rparr> = Inr 1 \<and>
   get_day \<lparr>name = ''x'', date = ''2024-01-15'', amount = Fin 1\<rparr> = Inr 15 \<and>
   get_day_of_week \<lparr>name = ''x'', date = ''2024-01-15'', amount = Fin 1\<rparr> = Inr 0"
proof -
  have bad: "strptime ''2024-13-40'' = Inl ValueError" by code_simp
  have ok: "strptime ''2024-01-15'' = Inr \<lparr>year = 2024, month = 1, day = 15\<rparr>" by code_simp
  have wd: "weekday \<lparr>year = 2024, month = 1, day = 15\<rparr> = 0" by code_simp
  show ?thesis
    using calendar_components_sentinel
            [of "\<lparr>name = ''x'', date = ''2024-13-40'', amount = Fin 1\<rparr>" ValueError
                "\<lparr>year = 2024, month = 1, day = 15\<rparr>"]
          calendar_components_sentinel
            [of "\<lparr>name = ''x'', date = ''2024-01-15'', amount = Fin 1\<rparr>" ValueError
                "\<lparr>year = 2024, month = 1, day = 15\<rparr>"]
          bad ok wd
    by simp
qed

section \<open>Histories with fewer than two entries (claims C5 and C10)\<close>

text \<open>
  Claim C5. For a history with fewer than two entries \<open>get_transaction_intervals\<close> returns
  the fixed record: the two averages are \<open>0.0\<close>, and \<open>monthly_recurrence\<close>, \<open>same_weekday\<close>
  and \<open>same_amount\<close> are the integer \<open>0\<close> (so \<open>same_amount\<close> is not \<open>1\<close>).
\<close>

theorem intervals_short_history:
  "length transactions < 2 \<Longrightarrow>
     get_transaction_intervals transactions =
       Inr [(''avg_days_between_transactions'', PyFloat (Fin 0)),
            (''std_dev_days_between_transactions'', PyFloat (Fin 0)),
            (''monthly_recurrence'', PyInt 0),
            (''same_weekday'', PyInt 0),
            (''same_amount'', PyInt 0)]"
  by (simp add: get_transaction_intervals_def)

theorem intervals_short_history_witness:
  "length [\<lparr>name = ''Netflix'', date = ''2024-01-01'', amount = Fin 5\<rparr>] < 2 \<and>
   get_transaction_intervals [\<lparr>name = ''Netflix'', date = ''2024-01-01'', amount = Fin 5\<rparr>] =
       Inr [(''avg_days_between_transactions'', PyFloat (Fin 0)),
            (''std_dev_days_between_transactions'', PyFloat (Fin 0)),
            (''monthly_recurrence'', PyInt 0),
            (''same_weekday'', PyInt 0),
            (''same_amount'', PyInt 0)] \<and>
   \<not> py_eq (PyInt 0) (PyInt 1)"
  using intervals_short_history [of "[\<lparr>name = ''Netflix'', date = ''2024-01-01'', amount = Fin 5\<rparr>]"]
  by simp

text \<open>
  Claim C10. For a history with fewer than two entries \<open>get_transaction_intervals\<close> always
  returns a record, never an exception, and the record does not depend on the dates and
  amounts of the entries: replacing them by anything else gives the same result, also
  when the dates are malformed.
\<close>

theorem intervals_short_history_total:
  "length transactions < 2 \<Longrightarrow>
     (\<exists>d. get_transaction_intervals transactions = Inr d) \<and>
     get_transaction_intervals (map (\<lambda>t. t\<lparr>date := f t, amount := g t\<rparr>) transactions) =
       get_transaction_intervals transactions"
  by (simp add: get_transaction_intervals_def)

theorem intervals_short_history_total_witness:
  "length [\<lparr>name = ''a'', date = ''not a date'', amount = NaN\<rparr>] < 2 \<and>
   strptime ''not a date'' = Inl ValueError \<and>
   (\<exists>d. get_transaction_intervals [\<lparr>name = ''a'', date = ''not a date'', amount = NaN\<rparr>] = Inr d) \<and>
   get_transaction_intervals
     (map (\<lambda>t. t\<lparr>date := ''2024-01-01'', amount := Fin 3\<rparr>)
        [\<lparr>name = ''a'', date = ''not a date'', amount = NaN\<rparr>]) =
   get_transaction_intervals [\<lparr>name = ''a'', date = ''not a date'', amount = NaN\<rparr>]"
proof -
  have bad: "strptime ''not a date'' = Inl ValueError" by code_simp
  show ?thesis
    using intervals_short_history_total
            [where transactions = "[\<lparr>name = ''a'', date = ''not a date'', amount = NaN\<rparr>]"
                and f = "\<lambda>t. ''2024-01-01''" and g = "\<lambda>t. Fin 3"] bad
    by simp
qed

section \<open>Counting transactions a number of days apart (claims C1 and C4)\<close>

lemma days_apart_loop_count:
  assumes "g \<noteq> 0" and "map (\<lambda>e. private_get_days (date e)) h = map Inr ds"
  shows "days_apart_loop td g k h n =
           Inr (n + int (length (filter (spec_days_apart_counted td g k) ds)))"
  using assms(2)
proof (induction h arbitrary: ds n)
  case Nil
  then show ?case by simp
next
  case (Cons t ts)
  then obtain d ds' where ds: "ds = d # ds'" and d: "private_get_days (date t) = Inr d"
    and rest: "map (\<lambda>e. private_get_days (date e)) ts = map Inr ds'"
    by (cases ds) auto
  show ?case
    using assms(1) Cons.IH [OF rest]
    by (simp add: ds d spec_days_apart_counted_def Let_def)
qed

lemma days_apart_value:
  assumes "0 < g" and "0 \<le> k"
    and "private_get_days (date t) = Inr td"
    and "map (\<lambda>e. private_get_days (date e)) h = map Inr ds"
  shows "get_n_transactions_days_apart t h g k =
           Inr (int (length (filter (spec_days_apart_counted td g k) ds)))"
  using assms days_apart_loop_count [of g h ds td k 0]
  by (simp add: get_n_transactions_days_apart_def)

lemma spec_days_apart_counted_sym:
  "spec_days_apart_counted a g k b = spec_days_apart_counted b g k a"
  by (simp add: spec_days_apart_counted_def abs_minus_commute)

text \<open>
  Claim C1, amended. When the date of the transaction and the dates of all history
  entries are accepted by \<open>strptime\<close>, a target gap \<open>g > 0\<close> and a tolerance \<open>k \<ge> 0\<close>
  make \<open>get_n_transactions_days_apart\<close> return exactly the number of entries whose
  distance \<open>diff\<close> in epoch days from the transaction satisfies \<open>diff \<ge> g - k\<close> and, with
  \<open>remainder = diff mod g\<close>, \<open>remainder \<le> k\<close> or \<open>g - remainder \<le> k\<close>; entries with
  \<open>diff < g - k\<close> are not counted. The epoch days of the entries are \<open>ds\<close>, in order.
\<close>

theorem days_apart_count:
  assumes "0 < g" and "0 \<le> k"
    and "private_get_days (date t) = Inr td"
    and "map (\<lambda>e. private_get_days (date e)) h = map Inr ds"
  shows "get_n_transactions_days_apart t h g k =
           Inr (int (length (filter (spec_days_apart_counted td g k) ds)))"
  using assms by (rule days_apart_value)

theorem days_apart_count_witness:
  "(0::int) < 14 \<and> (0::int) \<le> 1 \<and>
   private_get_days (date (tx ''a'' ''2024-01-15'' (Fin 5))) = Inr 19737 \<and>
   map (\<lambda>e. private_get_days (date e))
     [tx ''a'' ''2024-01-01'' (Fin 5), tx ''a'' ''2024-01-15'' (Fin 5),
      tx ''a'' ''2024-01-30'' (Fin 5), tx ''a'' ''2024-01-20'' (Fin 5)] =
     map Inr [19723, 19737, 19752, 19742] \<and>
   get_n_transactions_days_apart (tx ''a'' ''2024-01-15'' (Fin 5))
     [tx ''a'' ''2024-01-01'' (Fin 5), tx ''a'' ''2024-01-15'' (Fin 5),
      tx ''a'' ''2024-01-30'' (Fin 5), tx ''a'' ''2024-01-20'' (Fin 5)] 14 1 = Inr 2"
proof -
  have t: "private_get_days (date (tx ''a'' ''2024-01-15'' (Fin 5))) = Inr 19737"
    by code_simp
  have h: "map (\<lambda>e. private_get_days (date e))
     [tx ''a'' ''2024-01-01'' (Fin 5), tx ''a'' ''2024-01-15'' (Fin 5),
      tx ''a'' ''2024-01-30'' (Fin 5), tx ''a'' ''2024-01-20'' (Fin 5)] =
     map Inr [19723, 19737, 19752, 19742]"
    by code_simp
  have c: "int (length (filter (spec_days_apart_counted 19737 14 1) [19723, 19737, 19752, 19742])) = 2"
    by (simp add: spec_days_apart_counted_def)
  show ?thesis
    using days_apart_count [OF _ _ t h, of 14 1] t h c by simp
qed

text \<open>
  The claim as stated, for every history, fails: an entry whose date \<open>strptime\<close> rejects
  makes the function raise \<open>ValueError\<close> instead of returning a count.
\<close>

theorem days_apart_count_counterexample:
  "get_n_transactions_days_apart (tx ''a'' ''2024-01-15'' (Fin 5))
     [tx ''a'' ''2024-01-01'' (Fin 5), tx ''a'' ''2024-13-40'' (Fin 5)] 14 1 = Inl ValueError"
  by code_simp

text \<open>
  Claim C4. For two transactions with parseable dates, a target gap \<open>g > 0\<close> and a
  tolerance \<open>k \<ge> 0\<close>, counting \<open>b\<close> from \<open>a\<close> and counting \<open>a\<close> from \<open>b\<close> both return, and
  return the same count.
\<close>

theorem days_apart_symmetric:
  assumes "private_get_days (date a) = Inr da" and "private_get_days (date b) = Inr db"
    and "0 < g" and "0 \<le> k"
  shows "\<exists>n. get_n_transactions_days_apart a [b] g k = Inr n \<and>
             get_n_transactions_days_apart b [a] g k = Inr n"
proof -
  have "get_n_transactions_days_apart a [b] g k =
          Inr (int (length (filter (spec_days_apart_counted da g k) [db])))"
    using assms by (intro days_apart_value) simp_all
  moreover have "get_n_transactions_days_apart b [a] g k =
          Inr (int (length (filter (spec_days_apart_counted db g k) [da])))"
    using assms by (intro days_apart_value) simp_all
  ultimately show ?thesis
    using spec_days_apart_counted_sym [of da g k db] by simp
qed

theorem days_apart_symmetric_witness:
  "private_get_days (date (tx ''a'' ''2024-01-01'' (Fin 5))) = Inr 19723 \<and>
   private_get_days (date (tx ''b'' ''2024-01-29'' (Fin 7))) = Inr 19751 \<and>
   (0::int) < 14 \<and> (0::int) \<le> 0 \<and>
   get_n_transactions_days_apart (tx ''a'' ''2024-01-01'' (Fin 5))
     [tx ''b'' ''2024-01-29'' (Fin 7)] 14 0 = Inr 1 \<and>
   get_n_transactions_days_apart (tx ''b'' ''2024-01-29'' (Fin 7))
     [tx ''a'' ''2024-01-01'' (Fin 5)] 14 0 = Inr 1"
proof -
  have a: "private_get_days (date (tx ''a'' ''2024-01-01'' (Fin 5))) = Inr 19723" by code_simp
  have b: "private_get_days (date (tx ''b'' ''2024-01-29'' (Fin 7))) = Inr 19751" by code_simp
  have ab: "get_n_transactions_days_apart (tx ''a'' ''2024-01-01'' (Fin 5))
     [tx ''b'' ''2024-01-29'' (Fin 7)] 14 0 = Inr 1" by code_simp
  from days_apart_symmetric [OF a b, of 14 0] obtain n where
    "get_n_transactions_days_apart (tx ''a'' ''2024-01-01'' (Fin 5))
       [tx ''b'' ''2024-01-29'' (Fin 7)] 14 0 = Inr n"
    "get_n_transactions_days_apart (tx ''b'' ''2024-01-29'' (Fin 7))
       [tx ''a'' ''2024-01-01'' (Fin 5)] 14 0 = Inr n" by auto
  with ab a b show ?thesis by simp
qed


section \<open>Counting transactions on the same day of the month (claim C9)\<close>

lemma same_day_filter_all:
  assumes "\<forall>e \<in> set h. \<exists>a. private_get_day (date e) = Inr a"
    and "h \<noteq> [] \<longrightarrow> private_get_day (date t) = Inr b"
  shows "same_day_filter t n h =
           Inr (filter (\<lambda>e. \<exists>a. private_get_day (date e) = Inr a \<and> abs (a - b) \<le> n) h)"
  using assms
proof (induction h)
  case Nil
  then show ?case by simp
next
  case (Cons e es)
  then obtain a where a: "private_get_day (date e) = Inr a" by auto
  from Cons.prems have b: "private_get_day (date t) = Inr b" by simp
  have "same_day_filter t n es =
          Inr (filter (\<lambda>e. \<exists>a. private_get_day (date e) = Inr a \<and> abs (a - b) \<le> n) es)"
    using Cons.IH Cons.prems b by simp
  then show ?case by (simp add: a b)
qed

lemma count_list_le_filter:
  "(\<And>x. x \<in> set xs \<Longrightarrow> x = y \<Longrightarrow> P x) \<Longrightarrow> count_list xs y \<le> length (filter P xs)"
  by (induction xs) auto

text \<open>
  Claim C9, amended. When the date of every entry of the history \<open>h\<close> has an integer
  third dash-delimited field, the transaction \<open>t\<close> occurs in \<open>h\<close> and the tolerance is not
  negative, \<open>get_n_transactions_same_day\<close> returns a count that is at least the number of
  occurrences of \<open>t\<close> in \<open>h\<close>, hence at least 1.
\<close>

theorem same_day_counts_occurrences:
  assumes "\<forall>e \<in> set h. \<exists>a. private_get_day (date e) = Inr a"
    and "t \<in> set h" and "0 \<le> n"
  shows "\<exists>c. get_n_transactions_same_day t h n = Inr c \<and> int (count_list h t) \<le> c \<and> 1 \<le> c"
proof -
  from assms(1,2) obtain b where b: "private_get_day (date t) = Inr b" by auto
  let ?P = "\<lambda>e. \<exists>a. private_get_day (date e) = Inr a \<and> abs (a - b) \<le> n"
  have res: "get_n_transactions_same_day t h n = Inr (int (length (filter ?P h)))"
    using same_day_filter_all [OF assms(1), of t b n] b
    by (simp add: get_n_transactions_same_day_def)
  have le: "count_list h t \<le> length (filter ?P h)"
    using b assms(3) by (intro count_list_le_filter) simp
  have "count_list h t \<noteq> 0" using assms(2) by (simp add: count_list_0_iff)
  then have "0 < count_list h t" by simp
  with le res show ?thesis by auto
qed


theorem same_day_counts_occurrences_witness:
  "private_get_day ''2024-01-15'' = Inr 15 \<and> private_get_day ''2024-02-15'' = Inr 15 \<and>
   private_get_day ''2024-03-20'' = Inr 20 \<and>
   count_list [tx ''a'' ''2024-01-15'' (Fin 5), tx ''a'' ''2024-02-15'' (Fin 5),
               tx ''a'' ''2024-01-15'' (Fin 5), tx ''a'' ''2024-03-20'' (Fin 5)]
     (tx ''a'' ''2024-01-15'' (Fin 5)) = 2 \<and>
   (\<exists>c. get_n_transactions_same_day (tx ''a'' ''2024-01-15'' (Fin 5))
          [tx ''a'' ''2024-01-15'' (Fin 5), tx ''a'' ''2024-02-15'' (Fin 5),
           tx ''a'' ''2024-01-15'' (Fin 5), tx ''a'' ''2024-03-20'' (Fin 5)] 0 = Inr c \<and>
        2 \<le> c \<and> 1 \<le> c)"
proof -
  have d: "private_get_day ''2024-01-15'' = Inr 15" "private_get_day ''2024-02-15'' = Inr 15"
    "private_get_day ''2024-03-20'' = Inr 20" by code_simp+
  have cnt: "count_list [tx ''a'' ''2024-01-15'' (Fin 5), tx ''a'' ''2024-02-15'' (Fin 5),
               tx ''a'' ''2024-01-15'' (Fin 5), tx ''a'' ''2024-03-20'' (Fin 5)]
     (tx ''a'' ''2024-01-15'' (Fin 5)) = 2" by (simp add: tx_def)
  have pre: "\<forall>e \<in> set [tx ''a'' ''2024-01-15'' (Fin 5), tx ''a'' ''2024-02-15'' (Fin 5),
               tx ''a'' ''2024-01-15'' (Fin 5), tx ''a'' ''2024-03-20'' (Fin 5)].
               \<exists>a. private_get_day (date e) = Inr a"
    using d by (simp add: tx_def)
  show ?thesis
    using same_day_counts_occurrences [OF pre, of "tx ''a'' ''2024-01-15'' (Fin 5)" 0] d cnt
    by simp
qed

text \<open>
  The claim as stated constrains the date of \<open>t\<close> only. Another entry whose date has no
  third field makes the function raise \<open>IndexError\<close>, although \<open>t\<close> is in the history.
\<close>

theorem same_day_counts_occurrences_counterexample:
  "private_get_day (date (tx ''a'' ''2024-01-15'' (Fin 5))) = Inr 15 \<and>
   get_n_transactions_same_day (tx ''a'' ''2024-01-15'' (Fin 5))
     [tx ''a'' ''2024-01-15'' (Fin 5), tx ''b'' ''2024/02/15'' (Fin 5)] 0 = Inl IndexError"
  by code_simp


section \<open>Rounding to binary64\<close>

lemma pow2_powi: "pow2 e = 2 powi e"
  by (simp add: pow2_def power_int_def inverse_eq_divide power_one_over)

lemma pow2_pos: "0 < pow2 e"
  by (simp add: pow2_powi)

lemma bit_length_bounds:
  "0 < n \<Longrightarrow> 1 \<le> bit_length n \<and> 2 ^ nat (bit_length n - 1) \<le> n \<and> n < 2 ^ nat (bit_length n)"
proof (induction n rule: bit_length.induct)
  case (1 n)
  show ?case
  proof (cases "n = 1")
    case True
    then show ?thesis by (simp add: bit_length.simps [of 1] bit_length.simps [of 0])
  next
    case False
    with "1.prems" have pos: "0 < \<bar>n\<bar> div 2" and n0: "n \<noteq> 0" by auto
    from "1.IH" [OF n0 pos] obtain b where b: "b = bit_length (\<bar>n\<bar> div 2)" "1 \<le> b"
      "2 ^ nat (b - 1) \<le> \<bar>n\<bar> div 2" "\<bar>n\<bar> div 2 < 2 ^ nat b" by auto
    have bl: "bit_length n = 1 + b" using n0 b(1) by (simp add: bit_length.simps [of n])
    have e1: "nat (1 + b - 1) = Suc (nat (b - 1))" using b(2) by simp
    have e2: "nat (1 + b) = Suc (nat b)" using b(2) by simp
    have "2 * 2 ^ nat (b - 1) \<le> n" using b(3) "1.prems" by simp
    moreover have "n < 2 * 2 ^ nat b" using b(4) "1.prems" by simp
    ultimately show ?thesis using b(2) unfolding bl e1 e2 by simp
  qed
qed

lemma ilog2_bounds:
  assumes "0 < q"
  shows "pow2 (ilog2 q) \<le> q" and "q < pow2 (ilog2 q + 1)"
proof -
  obtain p d where pd: "quotient_of q = (p, d)" by (cases "quotient_of q")
  then have d: "0 < d" and q: "q = of_int p / of_int d"
    using quotient_of_denom_pos quotient_of_div by blast+
  with assms have p: "0 < p" by (simp add: zero_less_divide_iff)
  define bp where "bp = bit_length p"
  define bd where "bd = bit_length d"
  from bit_length_bounds [OF p] have P: "1 \<le> bp" "2 ^ nat (bp - 1) \<le> p" "p < 2 ^ nat bp"
    by (simp_all add: bp_def)
  from bit_length_bounds [OF d] have D: "1 \<le> bd" "2 ^ nat (bd - 1) \<le> d" "d < 2 ^ nat bd"
    by (simp_all add: bd_def)
  have Pr: "(2::rat) powi (bp - 1) \<le> of_int p" "of_int p < (2::rat) powi bp"
  proof -
    have "(of_int (2 ^ nat (bp - 1)) :: rat) \<le> of_int p" using P(2) by (simp only: of_int_le_iff)
    then show "(2::rat) powi (bp - 1) \<le> of_int p" using P(1) by (simp add: power_int_def)
    have "(of_int p :: rat) < of_int (2 ^ nat bp)" using P(3) by (simp only: of_int_less_iff)
    then show "of_int p < (2::rat) powi bp" using P(1) by (simp add: power_int_def)
  qed
  have Dr: "(2::rat) powi (bd - 1) \<le> of_int d" "of_int d < (2::rat) powi bd"
  proof -
    have "(of_int (2 ^ nat (bd - 1)) :: rat) \<le> of_int d" using D(2) by (simp only: of_int_le_iff)
    then show "(2::rat) powi (bd - 1) \<le> of_int d" using D(1) by (simp add: power_int_def)
    have "(of_int d :: rat) < of_int (2 ^ nat bd)" using D(3) by (simp only: of_int_less_iff)
    then show "of_int d < (2::rat) powi bd" using D(1) by (simp add: power_int_def)
  qed
  have dpos: "(0::rat) < of_int d" using d by simp
  have lo: "(2::rat) powi (bp - bd - 1) < q"
  proof -
    have "(2::rat) powi (bp - bd - 1) * of_int d < 2 powi (bp - bd - 1) * 2 powi bd"
      using Dr(2) by (simp add: mult_strict_left_mono)
    also have "\<dots> = 2 powi (bp - 1)" by (simp add: power_int_add [symmetric])
    also have "\<dots> \<le> of_int p" by (rule Pr(1))
    finally show ?thesis using dpos by (simp add: q pos_less_divide_eq)
  qed
  have hi: "q < (2::rat) powi (bp - bd + 1)"
  proof -
    have "of_int p < (2::rat) powi bp" by (rule Pr(2))
    also have "\<dots> = 2 powi (bp - bd + 1) * 2 powi (bd - 1)" by (simp add: power_int_add [symmetric])
    also have "\<dots> \<le> 2 powi (bp - bd + 1) * of_int d"
      using Dr(1) by (simp add: mult_left_mono)
    finally show ?thesis using dpos by (simp add: q pos_divide_less_eq)
  qed
  have il: "ilog2 q = (if 2 powi (bp - bd) \<le> q then bp - bd else bp - bd - 1)"
    by (simp add: ilog2_def pd bp_def bd_def pow2_powi Let_def)
  show "pow2 (ilog2 q) \<le> q" using lo by (simp add: il pow2_powi)
  show "q < pow2 (ilog2 q + 1)" using hi by (auto simp: il pow2_powi not_le)
qed

lemma ilog2_less:
  assumes "0 < q" and "q < pow2 k"
  shows "ilog2 q < k"
proof (rule ccontr)
  assume "\<not> ilog2 q < k"
  then have "k \<le> ilog2 q" by simp
  then have "pow2 k \<le> pow2 (ilog2 q)" by (simp add: pow2_powi power_int_increasing)
  also have "\<dots> \<le> q" by (rule ilog2_bounds(1) [OF assms(1)])
  finally show False using assms(2) by simp
qed

lemma round_half_even_nonneg: "0 \<le> x \<Longrightarrow> 0 \<le> round_half_even x"
  by (auto simp: round_half_even_def Let_def)

lemma round_pos_cases:
  assumes "0 \<le> q"
  shows "round_pos q = PInf \<or> (\<exists>r. 0 \<le> r \<and> round_pos q = Fin r)"
proof -
  have "0 \<le> q / pow2 (max (ilog2 q) (- 1022) - 52)"
    using assms pow2_pos [of "max (ilog2 q) (- 1022) - 52"] by simp
  then have "0 \<le> round_half_even (q / pow2 (max (ilog2 q) (- 1022) - 52))"
    by (rule round_half_even_nonneg)
  then have "(0::rat) \<le> of_int (round_half_even (q / pow2 (max (ilog2 q) (- 1022) - 52))) *
                 pow2 (max (ilog2 q) (- 1022) - 52)"
    using pow2_pos [of "max (ilog2 q) (- 1022) - 52"] by simp
  then show ?thesis by (simp add: round_pos_def Let_def)
qed

lemma round_pos_finite:
  assumes "0 < q" and "q < pow2 1023"
  shows "\<exists>r. 0 \<le> r \<and> round_pos q = Fin r"
proof -
  have "ilog2 q < 1023" using assms by (rule ilog2_less)
  then have "max (ilog2 q) (- 1022) < 1023" by simp
  then have "round_pos q \<noteq> PInf" by (auto simp: round_pos_def Let_def)
  with round_pos_cases [of q] assms(1) show ?thesis by auto
qed

lemma round64_nonneg_cases:
  "0 \<le> q \<Longrightarrow> round64 q = PInf \<or> (\<exists>r. 0 \<le> r \<and> round64 q = Fin r)"
  using round_pos_cases [of q] by (auto simp: round64_def)

lemma round64_nonpos_cases:
  "q \<le> 0 \<Longrightarrow> round64 q = NInf \<or> (\<exists>r. r \<le> 0 \<and> round64 q = Fin r)"
  using round_pos_cases [of "- q"] by (auto simp: round64_def flt_neg_def)

lemma round64_finite:
  assumes "\<bar>q\<bar> < pow2 1023"
  shows "\<exists>r. round64 q = Fin r"
proof -
  consider "q = 0" | "0 < q" | "q < 0" by linarith
  then show ?thesis
  proof cases
    case 1
    then show ?thesis by (simp add: round64_def)
  next
    case 2
    with assms round_pos_finite [of q] show ?thesis by (auto simp: round64_def)
  next
    case 3
    with assms round_pos_finite [of "- q"] show ?thesis by (auto simp: round64_def flt_neg_def)
  qed
qed

lemma one_less_pow2_1023: "1 < pow2 1023"
  by (simp add: pow2_powi one_less_power_int)

lemma int_truediv_fraction:
  assumes "0 \<le> a" and "a \<le> b" and "0 < b"
  shows "\<exists>r. int_truediv a b = Inr (Fin r)"
proof -
  have "\<bar>(of_int a :: rat) / of_int b\<bar> \<le> 1" using assms by simp
  then have "\<bar>(of_int a :: rat) / of_int b\<bar> < pow2 1023" using one_less_pow2_1023 by linarith
  from round64_finite [OF this] obtain r where "round64 (of_int a / of_int b) = Fin r" ..
  then show ?thesis using assms(3) by (simp add: int_truediv_def)
qed


section \<open>Share of transactions with the same amount (claim C7)\<close>

text \<open>
  Claim C7. For a non-empty history \<open>get_percent_transactions_same_amount\<close> is the quotient
  \<open>/\<close> of \<open>get_n_transactions_same_amount\<close> by the length of the history, and this quotient
  is a finite float, never an exception; for the empty history it is \<open>0.0\<close>.
\<close>

theorem percent_same_amount_is_quotient:
  "(h \<noteq> [] \<longrightarrow>
      get_percent_transactions_same_amount t h =
        int_truediv (get_n_transactions_same_amount t h) (int (length h)) \<and>
      (\<exists>r. get_percent_transactions_same_amount t h = Inr (Fin r))) \<and>
   get_percent_transactions_same_amount t [] = Inr (Fin 0)"
proof -
  have "\<exists>r. int_truediv (get_n_transactions_same_amount t h) (int (length h)) = Inr (Fin r)"
    if "h \<noteq> []"
    using that by (intro int_truediv_fraction) (simp_all add: get_n_transactions_same_amount_def)
  then show ?thesis
    by (simp add: get_percent_transactions_same_amount_def get_n_transactions_same_amount_def
        Let_def)
qed


theorem percent_same_amount_is_quotient_witness:
  "[tx ''a'' ''2024-01-15'' (Fin 5), tx ''b'' ''2024-02-15'' (Fin 7),
    tx ''c'' ''2024-03-15'' (Fin 5)] \<noteq> [] \<and>
   get_n_transactions_same_amount (tx ''a'' ''2024-01-15'' (Fin 5))
     [tx ''a'' ''2024-01-15'' (Fin 5), tx ''b'' ''2024-02-15'' (Fin 7),
      tx ''c'' ''2024-03-15'' (Fin 5)] = 2 \<and>
   get_percent_transactions_same_amount (tx ''a'' ''2024-01-15'' (Fin 5))
     [tx ''a'' ''2024-01-15'' (Fin 5), tx ''b'' ''2024-02-15'' (Fin 7),
      tx ''c'' ''2024-03-15'' (Fin 5)] = int_truediv 2 3 \<and>
   int_truediv 2 3 = Inr (Fin (6004799503160661 / 9007199254740992))"
proof -
  have n: "get_n_transactions_same_amount (tx ''a'' ''2024-01-15'' (Fin 5))
     [tx ''a'' ''2024-01-15'' (Fin 5), tx ''b'' ''2024-02-15'' (Fin 7),
      tx ''c'' ''2024-03-15'' (Fin 5)] = 2" by code_simp
  have q: "int_truediv 2 3 = Inr (Fin (6004799503160661 / 9007199254740992))" by code_simp
  show ?thesis
    using percent_same_amount_is_quotient
            [of "[tx ''a'' ''2024-01-15'' (Fin 5), tx ''b'' ''2024-02-15'' (Fin 7),
                  tx ''c'' ''2024-03-15'' (Fin 5)]" "tx ''a'' ''2024-01-15'' (Fin 5)"] n q
    by simp
qed


section \<open>Amounts ending in 99 (claim C2)\<close>

text \<open>
  Claim C2. \<open>get_ends_in_99\<close> tests \<open>(amount * 100) % 100 == 99\<close> on floats, without
  rounding the product. For the amount 19.99, the binary64 value nearest to it, the
  product is 1998.9999999999998 and the function returns \<open>False\<close>, where the claim and
  the function's documentation expect \<open>True\<close>. It returns \<open>False\<close> for 20.00 and \<open>True\<close>
  for 2.99.
\<close>

theorem ends_in_99_misses_19_99:
  "flt_mul (round64 (1999 / 100)) (Fin 100) = Fin (8791694975696895 / 4398046511104) \<and>
   get_ends_in_99 (tx ''a'' ''2024-01-15'' (round64 (1999 / 100))) = Inr False \<and>
   get_ends_in_99 (tx ''a'' ''2024-01-15'' (round64 (20 / 1))) = Inr False \<and>
   get_ends_in_99 (tx ''a'' ''2024-01-15'' (round64 (299 / 100))) = Inr True"
  by code_simp


section \<open>The Netflix scenario (claim C3)\<close>

text \<open>
  The dictionaries that \<open>get_features\<close> returns for the three transactions of the
  scenario, computed from the definitions.
\<close>

lemma netflix_features_1:
  "get_features (netflix_tx ''2024-01-01'') netflix_history = Inr
     [(''n_transactions_same_amount'', PyInt 3),
      (''percent_transactions_same_amount'', PyFloat (Fin 1)),
      (''n_transactions_same_vendor'', PyInt 3),
      (''max_transaction_amount'', PyFloat (Fin (5623870034678907 / 562949953421312))),
      (''min_transaction_amount'', PyFloat (Fin (5623870034678907 / 562949953421312))),
      (''is_recurring_mobile_transaction'', PyBool False),
      (''day_of_week'', PyInt 0), (''month'', PyInt 1), (''day'', PyInt 1),
      (''year'', PyInt 2024), (''ends_in_99'', PyBool True),
      (''amount'', PyFloat (Fin (5623870034678907 / 562949953421312))),
      (''same_day_exact'', PyInt 1), (''same_day_off_1'', PyInt 1),
      (''same_day_off_2'', PyInt 1), (''14_days_apart_exact'', PyInt 2),
      (''14_days_apart_off_by_1'', PyInt 2),
      (''7_days_apart_exact'', PyInt 2),
      (''7_days_apart_off_by_1'', PyInt 2),
      (''is_insurance'', PyBool False), (''is_utility'', PyBool False),
      (''is_always_recurring'', PyBool True),
      (''avg_days_between_transactions'', PyInt 14),
      (''std_dev_days_between_transactions'', PyFloat (Fin 0)),
      (''monthly_recurrence'', PyFloat (Fin 0)),
      (''same_weekday'', PyInt 1), (''same_amount'', PyFloat (Fin 1))]"
  by code_simp

lemma netflix_features_15:
  "get_features (netflix_tx ''2024-01-15'') netflix_history = Inr
     [(''n_transactions_same_amount'', PyInt 3),
      (''percent_transactions_same_amount'', PyFloat (Fin 1)),
      (''n_transactions_same_vendor'', PyInt 3),
      (''max_transaction_amount'', PyFloat (Fin (5623870034678907 / 562949953421312))),
      (''min_transaction_amount'', PyFloat (Fin (5623870034678907 / 562949953421312))),
      (''is_recurring_mobile_transaction'', PyBool False),
      (''day_of_week'', PyInt 0), (''month'', PyInt 1), (''day'', PyInt 15),
      (''year'', PyInt 2024), (''ends_in_99'', PyBool True),
      (''amount'', PyFloat (Fin (5623870034678907 / 562949953421312))),
      (''same_day_exact'', PyInt 1), (''same_day_off_1'', PyInt 1),
      (''same_day_off_2'', PyInt 1), (''14_days_apart_exact'', PyInt 2),
      (''14_days_apart_off_by_1'', PyInt 2),
      (''7_days_apart_exact'', PyInt 2),
      (''7_days_apart_off_by_1'', PyInt 2),
      (''is_insurance'', PyBool False), (''is_utility'', PyBool False),
      (''is_always_recurring'', PyBool True),
      (''avg_days_between_transactions'', PyInt 14),
      (''std_dev_days_between_transactions'', PyFloat (Fin 0)),
      (''monthly_recurrence'', PyFloat (Fin 0)),
      (''same_weekday'', PyInt 1), (''same_amount'', PyFloat (Fin 1))]"
  by code_simp

lemma netflix_features_29:
  "get_features (netflix_tx ''2024-01-29'') netflix_history = Inr
     [(''n_transactions_same_amount'', PyInt 3),
      (''percent_transactions_same_amount'', PyFloat (Fin 1)),
      (''n_transactions_same_vendor'', PyInt 3),
      (''max_transaction_amount'', PyFloat (Fin (5623870034678907 / 562949953421312))),
      (''min_transaction_amount'', PyFloat (Fin (5623870034678907 / 562949953421312))),
      (''is_recurring_mobile_transaction'', PyBool False),
      (''day_of_week'', PyInt 0), (''month'', PyInt 1), (''day'', PyInt 29),
      (''year'', PyInt 2024), (''ends_in_99'', PyBool True),
      (''amount'', PyFloat (Fin (5623870034678907 / 562949953421312))),
      (''same_day_exact'', PyInt 1), (''same_day_off_1'', PyInt 1),
      (''same_day_off_2'', PyInt 1), (''14_days_apart_exact'', PyInt 2),
      (''14_days_apart_off_by_1'', PyInt 2),
      (''7_days_apart_exact'', PyInt 2),
      (''7_days_apart_off_by_1'', PyInt 2),
      (''is_insurance'', PyBool False), (''is_utility'', PyBool False),
      (''is_always_recurring'', PyBool True),
      (''avg_days_between_transactions'', PyInt 14),
      (''std_dev_days_between_transactions'', PyFloat (Fin 0)),
      (''monthly_recurrence'', PyFloat (Fin 0)),
      (''same_weekday'', PyInt 1), (''same_amount'', PyFloat (Fin 1))]"
  by code_simp

text \<open>
  Claim C3. For the history of three Netflix payments of 9.99 dated 2024-01-01,
  2024-01-15 and 2024-01-29, \<open>get_features\<close> on each of the three returns a dictionary in
  which \<open>is_always_recurring\<close> is \<open>True\<close>, \<open>same_amount\<close> is \<open>1.0\<close>,
  \<open>avg_days_between_transactions\<close> equals \<open>14.0\<close> (it is the integer 14),
  \<open>std_dev_days_between_transactions\<close> is \<open>0.0\<close>, \<open>monthly_recurrence\<close> is \<open>0.0\<close> and
  \<open>same_weekday\<close> is 1; the comparison is \<open>==\<close> of Python.
\<close>

theorem netflix_scenario:
  "feature_is (get_features (netflix_tx ''2024-01-01'') netflix_history)
     ''is_always_recurring'' (PyBool True) \<and>
   feature_is (get_features (netflix_tx ''2024-01-01'') netflix_history)
     ''same_amount'' (PyFloat (Fin 1)) \<and>
   feature_is (get_features (netflix_tx ''2024-01-01'') netflix_history)
     ''avg_days_between_transactions'' (PyFloat (Fin 14)) \<and>
   feature_is (get_features (netflix_tx ''2024-01-01'') netflix_history)
     ''std_dev_days_between_transactions'' (PyFloat (Fin 0)) \<and>
   feature_is (get_features (netflix_tx ''2024-01-01'') netflix_history)
     ''monthly_recurrence'' (PyFloat (Fin 0)) \<and>
   feature_is (get_features (netflix_tx ''2024-01-01'') netflix_history)
     ''same_weekday'' (PyInt 1) \<and>
   feature_is (get_features (netflix_tx ''2024-01-15'') netflix_history)
     ''is_always_recurring'' (PyBool True) \<and>
   feature_is (get_features (netflix_tx ''2024-01-15'') netflix_history)
     ''same_amount'' (PyFloat (Fin 1)) \<and>
   feature_is (get_features (netflix_tx ''2024-01-15'') netflix_history)
     ''avg_days_between_transactions'' (PyFloat (Fin 14)) \<and>
   feature_is (get_features (netflix_tx ''2024-01-15'') netflix_history)
     ''std_dev_days_between_transactions'' (PyFloat (Fin 0)) \<and>
   feature_is (get_features (netflix_tx ''2024-01-15'') netflix_history)
     ''monthly_recurrence'' (PyFloat (Fin 0)) \<and>
   feature_is (get_features (netflix_tx ''2024-01-15'') netflix_history)
     ''same_weekday'' (PyInt 1) \<and>
   feature_is (get_features (netflix_tx ''2024-01-29'') netflix_history)
     ''is_always_recurring'' (PyBool True) \<and>
   feature_is (get_features (netflix_tx ''2024-01-29'') netflix_history)
     ''same_amount'' (PyFloat (Fin 1)) \<and>
   feature_is (get_features (netflix_tx ''2024-01-29'') netflix_history)
     ''avg_days_between_transactions'' (PyFloat (Fin 14)) \<and>
   feature_is (get_features (netflix_tx ''2024-01-29'') netflix_history)
     ''std_dev_days_between_transactions'' (PyFloat (Fin 0)) \<and>
   feature_is (get_features (netflix_tx ''2024-01-29'') netflix_history)
     ''monthly_recurrence'' (PyFloat (Fin 0)) \<and>
   feature_is (get_features (netflix_tx ''2024-01-29'') netflix_history)
     ''same_weekday'' (PyInt 1)"
  by (simp add: netflix_features_1 netflix_features_15 netflix_features_29 feature_is_def
      feature_def flt_eq_def)

section \<open>The interval statistics return for parseable dates\<close>

text \<open>
  For dates that \<open>strptime\<close> accepts the ordinals lie between 0 and 4000000, so the gaps
  are bounded and neither \<open>mean\<close> nor \<open>stdev\<close> can overflow the float range.
\<close>

lemma make_datetime_valid:
  "make_datetime y m d = Inr dt \<Longrightarrow>
     1 \<le> year dt \<and> year dt \<le> 9999 \<and> 1 \<le> month dt \<and> month dt \<le> 12 \<and>
     1 \<le> day dt \<and> day dt \<le> 31"
  by (auto simp: make_datetime_def days_in_month_def split: if_splits)

lemma strptime_make_datetime:
  "strptime s = Inr dt \<Longrightarrow> \<exists>y m d. make_datetime y m d = Inr dt"
  by (auto simp: strptime_def bind_err_eq_Inr split: option.splits prod.splits if_splits)

lemma strptime_valid:
  assumes "strptime s = Inr dt"
  shows "1 \<le> year dt \<and> year dt \<le> 9999 \<and> 1 \<le> month dt \<and> month dt \<le> 12 \<and>
     1 \<le> day dt \<and> day dt \<le> 31"
proof -
  from strptime_make_datetime [OF assms] obtain y m d where "make_datetime y m d = Inr dt"
    by blast
  then show ?thesis by (rule make_datetime_valid)
qed

lemma days_before_month_bounds:
  assumes "1 \<le> m" and "m \<le> 12"
  shows "0 \<le> days_before_month y m \<and> days_before_month y m \<le> 335"
proof -
  from assms have "m = 1 \<or> m = 2 \<or> m = 3 \<or> m = 4 \<or> m = 5 \<or> m = 6 \<or> m = 7 \<or> m = 8 \<or>
    m = 9 \<or> m = 10 \<or> m = 11 \<or> m = 12" by arith
  then show ?thesis by (auto simp: days_before_month_def)
qed

lemma days_before_year_bounds:
  assumes "1 \<le> y" and "y \<le> 9999"
  shows "0 \<le> days_before_year y \<and> days_before_year y \<le> 3700000"
proof -
  define p where "p = y - 1"
  have p: "0 \<le> p" "p \<le> 9998" using assms by (simp_all add: p_def)
  have a: "0 \<le> p div 4" using p(1) by (simp add: pos_imp_zdiv_nonneg_iff)
  have "p div 4 \<le> p div 1" using p(1) by (intro zdiv_mono2) simp_all
  then have a': "p div 4 \<le> p" by simp
  have b: "p div 100 \<le> p div 4" using p by (intro zdiv_mono2) simp_all
  have c: "0 \<le> p div 400" using p(1) by (simp add: pos_imp_zdiv_nonneg_iff)
  have "p div 400 \<le> p div 1" using p(1) by (intro zdiv_mono2) simp_all
  then have c': "p div 400 \<le> p" by simp
  have d: "0 \<le> p div 100" using p by (simp add: pos_imp_zdiv_nonneg_iff)
  have "days_before_year y = p * 365 + p div 4 - p div 100 + p div 400"
    by (simp add: days_before_year_def p_def Let_def)
  then show ?thesis using p a a' b c c' d by linarith
qed

lemma toordinal_bounds:
  assumes "1 \<le> year dt" "year dt \<le> 9999" "1 \<le> month dt" "month dt \<le> 12"
    "1 \<le> day dt" "day dt \<le> 31"
  shows "0 \<le> toordinal dt \<and> toordinal dt \<le> 4000000"
  using days_before_year_bounds [of "year dt"] days_before_month_bounds [of "month dt" "year dt"]
    assms
  by (simp add: toordinal_def)

lemma sequence_err_all_Inr:
  "(\<forall>r \<in> set rs. \<exists>v. r = Inr v) \<Longrightarrow> \<exists>vs. sequence_err rs = Inr vs \<and> map Inr vs = rs"
proof (induction rs)
  case Nil
  then show ?case by simp
next
  case (Cons r rs)
  then obtain v vs where "r = Inr v" "sequence_err rs = Inr vs" "map Inr vs = rs" by auto
  then show ?case by simp
qed

lemma pow2_1023: "pow2 1023 = 2 ^ 1023"
  by (simp add: pow2_def)

lemma less_pow2_1023:
  assumes "x \<le> 2 ^ n" and "n < 1023"
  shows "x < pow2 1023"
proof -
  have "(2::rat) ^ n < 2 ^ 1023" using assms(2) by (intro power_strict_increasing) simp_all
  with assms(1) show ?thesis by (simp add: pow2_1023)
qed

lemma int_truediv_bounded:
  assumes "b \<noteq> 0" and "\<bar>of_int a / of_int b :: rat\<bar> < pow2 1023"
  shows "\<exists>r. int_truediv a b = Inr (Fin r)"
proof -
  from round64_finite [OF assms(2)] obtain r where "round64 (of_int a / of_int b) = Fin r" ..
  then show ?thesis using assms(1) by (simp add: int_truediv_def)
qed

lemma sum_list_abs_le:
  fixes xs :: "int list"
  shows "\<forall>x \<in> set xs. \<bar>x\<bar> \<le> M \<Longrightarrow> \<bar>sum_list xs\<bar> \<le> M * int (length xs)"
proof (induction xs)
  case Nil
  then show ?case by simp
next
  case (Cons x xs)
  then have "\<bar>x\<bar> \<le> M" "\<bar>sum_list xs\<bar> \<le> M * int (length xs)" by simp_all
  then show ?case by (simp add: algebra_simps)
qed

lemma sum_list_squares_le:
  fixes xs :: "int list"
  assumes "0 \<le> M"
  shows "\<forall>x \<in> set xs. \<bar>x\<bar> \<le> M \<Longrightarrow>
           0 \<le> sum_list (map (\<lambda>x. x * x) xs) \<and>
           sum_list (map (\<lambda>x. x * x) xs) \<le> M * M * int (length xs)"
proof (induction xs)
  case Nil
  then show ?case by simp
next
  case (Cons x xs)
  then have x: "\<bar>x\<bar> \<le> M" and IH: "0 \<le> sum_list (map (\<lambda>x. x * x) xs)"
    "sum_list (map (\<lambda>x. x * x) xs) \<le> M * M * int (length xs)" by simp_all
  have "x * x = \<bar>x\<bar> * \<bar>x\<bar>" by simp
  also have "\<dots> \<le> M * M" using x by (intro mult_mono) simp_all
  finally have "x * x \<le> M * M" .
  moreover have "0 \<le> x * x" by simp
  ultimately show ?case using IH by (simp add: algebra_simps)
qed

lemma mean_returns:
  assumes "data \<noteq> []" and "\<forall>x \<in> set data. \<bar>x\<bar> \<le> 4000000"
  shows "\<exists>v. mean data = Inr v"
proof -
  define n where "n = int (length data)"
  define q :: rat where "q = of_int (sum_list data) / of_int n"
  have n: "0 < n" using assms(1) by (simp add: n_def)
  have "\<bar>sum_list data\<bar> \<le> 4000000 * n"
    using sum_list_abs_le [OF assms(2)] by (simp add: n_def)
  then have "\<bar>(of_int (sum_list data) :: rat)\<bar> \<le> 4000000 * of_int n"
    by (metis of_int_abs of_int_le_iff of_int_mult of_int_numeral)
  then have q: "\<bar>q\<bar> \<le> 4000000" using n by (simp add: q_def pos_divide_le_eq)
  obtain p d where pd: "quotient_of q = (p, d)" by (cases "quotient_of q")
  then have d: "0 < d" and qe: "q = of_int p / of_int d"
    using quotient_of_denom_pos quotient_of_div by blast+
  have "\<bar>of_int p / of_int d :: rat\<bar> \<le> 2 ^ 22" using q by (simp add: qe)
  then have "\<bar>of_int p / of_int d :: rat\<bar> < pow2 1023" by (rule less_pow2_1023) simp
  from int_truediv_bounded [OF _ this] d obtain r where "int_truediv p d = Inr (Fin r)" by auto
  then show ?thesis
    using assms(1) pd by (simp add: mean_def q_def n_def)
qed

lemma isqrt_abs_le: "\<bar>isqrt n\<bar> \<le> \<bar>n\<bar>"
proof (induction n rule: isqrt.induct)
  case (1 n)
  show ?case
  proof (cases "n < 2")
    case True
    then show ?thesis by (simp add: isqrt.simps [of n])
  next
    case False
    then have IH: "\<bar>isqrt (n div 4)\<bar> \<le> \<bar>n div 4\<bar>" by (rule "1.IH")
    have n4: "0 \<le> n div 4" "4 * (n div 4) \<le> n" using False by simp_all
    have "isqrt n = 2 * isqrt (n div 4) \<or> isqrt n = 2 * isqrt (n div 4) + 1"
      using False by (simp add: isqrt.simps [of n] Let_def)
    then show ?thesis using IH n4 False by auto
  qed
qed

lemma integer_sqrt_of_frac_rto_le:
  "\<bar>integer_sqrt_of_frac_rto n m\<bar> \<le> \<bar>n div m\<bar> + 1"
  using isqrt_abs_le [of "n div m"] by (auto simp: integer_sqrt_of_frac_rto_def Let_def)

lemma abs_div_le:
  assumes "0 < m"
  shows "\<bar>of_int (n div m) :: rat\<bar> \<le> \<bar>of_int n / of_int m\<bar> + 1"
proof -
  have "n div m = \<lfloor>of_int n / of_int m :: rat\<rfloor>" by (simp add: floor_divide_of_int_eq)
  then show ?thesis by (simp add: abs_if) linarith
qed

lemma bit_length_abs: "bit_length \<bar>n\<bar> = bit_length n"
  by (simp add: bit_length.simps [of n] bit_length.simps [of "\<bar>n\<bar>"])

lemma bit_length_ratio_lower:
  assumes "n \<noteq> 0" and "0 < m"
  shows "(2::rat) powi (bit_length n - bit_length m - 1) < \<bar>of_int n / of_int m\<bar>"
proof -
  define bn where "bn = bit_length n"
  define bm where "bm = bit_length m"
  have "0 < \<bar>n\<bar>" using assms(1) by simp
  from bit_length_bounds [OF this] have N: "1 \<le> bn" "2 ^ nat (bn - 1) \<le> \<bar>n\<bar>"
    by (simp_all add: bn_def bit_length_abs)
  from bit_length_bounds [OF assms(2)] have M: "1 \<le> bm" "m < 2 ^ nat bm"
    by (simp_all add: bm_def)
  have "(of_int (2 ^ nat (bn - 1)) :: rat) \<le> of_int \<bar>n\<bar>" using N(2) by (simp only: of_int_le_iff)
  then have Nr: "(2::rat) powi (bn - 1) \<le> \<bar>of_int n\<bar>" using N(1) by (simp add: power_int_def)
  have "(of_int m :: rat) < of_int (2 ^ nat bm)" using M(2) by (simp only: of_int_less_iff)
  then have Mr: "of_int m < (2::rat) powi bm" using M(1) by (simp add: power_int_def)
  have mpos: "(0::rat) < of_int m" using assms(2) by simp
  have "(2::rat) powi (bn - bm - 1) * of_int m < 2 powi (bn - bm - 1) * 2 powi bm"
    using Mr by (simp add: mult_strict_left_mono)
  also have "\<dots> = 2 powi (bn - 1)" by (simp add: power_int_add [symmetric])
  also have "\<dots> \<le> \<bar>of_int n\<bar>" by (rule Nr)
  finally have "(2::rat) powi (bn - bm - 1) < \<bar>of_int n\<bar> / of_int m"
    using mpos by (simp add: pos_less_divide_eq)
  then show ?thesis using mpos by (simp add: bn_def bm_def abs_divide abs_of_pos)
qed

lemma bit_length_ratio_upper:
  assumes "0 < m"
  shows "\<bar>of_int n / of_int m\<bar> < (2::rat) powi (bit_length n - bit_length m + 1)"
proof (cases "n = 0")
  case True
  then show ?thesis by simp
next
  case False
  define bn where "bn = bit_length n"
  define bm where "bm = bit_length m"
  have "0 < \<bar>n\<bar>" using False by simp
  from bit_length_bounds [OF this] have N: "1 \<le> bn" "\<bar>n\<bar> < 2 ^ nat bn"
    by (simp_all add: bn_def bit_length_abs)
  from bit_length_bounds [OF assms] have M: "1 \<le> bm" "2 ^ nat (bm - 1) \<le> m"
    by (simp_all add: bm_def)
  have "(of_int \<bar>n\<bar> :: rat) < of_int (2 ^ nat bn)" using N(2) by (simp only: of_int_less_iff)
  then have Nr: "\<bar>of_int n\<bar> < (2::rat) powi bn" using N(1) by (simp add: power_int_def)
  have "(of_int (2 ^ nat (bm - 1)) :: rat) \<le> of_int m" using M(2) by (simp only: of_int_le_iff)
  then have Mr: "(2::rat) powi (bm - 1) \<le> of_int m" using M(1) by (simp add: power_int_def)
  have mpos: "(0::rat) < of_int m" using assms by simp
  have "\<bar>of_int n\<bar> < (2::rat) powi bn" by (rule Nr)
  also have "\<dots> = 2 powi (bn - bm + 1) * 2 powi (bm - 1)" by (simp add: power_int_add [symmetric])
  also have "\<dots> \<le> 2 powi (bn - bm + 1) * of_int m" using Mr by (simp add: mult_left_mono)
  finally have "\<bar>of_int n\<bar> / of_int m < (2::rat) powi (bn - bm + 1)"
    using mpos by (simp add: pos_divide_less_eq)
  then show ?thesis using mpos by (simp add: bn_def bm_def abs_divide abs_of_pos)
qed

lemma float_sqrt_of_frac_returns:
  assumes m: "0 < m" and bound: "\<bar>of_int n / of_int m :: rat\<bar> \<le> 2 ^ 50"
  shows "\<exists>r. float_sqrt_of_frac n m = Inr (Fin r)"
proof -
  define D where "D = bit_length n - bit_length m"
  define q where "q = (D - sqrt_bit_width) div 2"
  have D: "D \<le> 50"
  proof (cases "n = 0")
    case True
    with bit_length_bounds [OF m] show ?thesis by (simp add: D_def bit_length.simps [of 0])
  next
    case False
    from bit_length_ratio_lower [OF False m] bound
    have lt: "(2::rat) powi (D - 1) < 2 powi 50" by (simp add: D_def)
    have "D - 1 < 50" by (rule power_int_le_imp_less_exp [of "2::rat", OF _ lt]) simp_all
    then show ?thesis by simp
  qed
  have q2: "2 * q \<le> D - 109" "D - 109 \<le> 2 * q + 1"
    by (simp_all add: q_def sqrt_bit_width_def)
  with D have qneg: "q < 0" by linarith
  define k where "k = nat (- q)"
  have kq: "int k = - q" using qneg by (simp add: k_def)
  have e2: "nat (- (2 * q)) = 2 * k" using qneg by (simp add: k_def)
  define num where "num = integer_sqrt_of_frac_rto (n * 2 ^ (2 * k)) m"
  have fs: "float_sqrt_of_frac n m = int_truediv num (2 ^ k)"
    using qneg by (simp add: float_sqrt_of_frac_def Let_def D_def [symmetric] q_def [symmetric]
        num_def e2 k_def [symmetric])
  have mpos: "(0::rat) < of_int m" using m by simp
  define N where "N = n * 2 ^ (2 * k)"
  have "\<bar>num\<bar> \<le> \<bar>N div m\<bar> + 1"
    unfolding num_def N_def by (rule integer_sqrt_of_frac_rto_le)
  then have "(of_int \<bar>num\<bar> :: rat) \<le> of_int (\<bar>N div m\<bar> + 1)" by (simp only: of_int_le_iff)
  then have s1: "\<bar>of_int num :: rat\<bar> \<le> \<bar>of_int (N div m)\<bar> + 1" by simp
  have s2: "\<bar>of_int (N div m) :: rat\<bar> \<le> \<bar>of_int N / of_int m\<bar> + 1"
    by (rule abs_div_le [OF m])
  have "(of_int N :: rat) = of_int n * (2 ^ k * 2 ^ k)"
    by (simp add: N_def mult_2 power_add)
  then have "(of_int N / of_int m :: rat) = of_int n / of_int m * (2 ^ k * 2 ^ k)" by simp
  then have s3: "\<bar>of_int N / of_int m :: rat\<bar> = \<bar>of_int n / of_int m\<bar> * (2 ^ k * 2 ^ k)"
    by (simp only: abs_mult)
  define x :: rat where "x = \<bar>of_int n / of_int m\<bar>"
  define c :: rat where "c = 2 ^ k"
  have c1: "1 \<le> c" by (simp add: c_def)
  have x0: "0 \<le> x" by (simp add: x_def)
  have s2': "\<bar>of_int (N div m) :: rat\<bar> \<le> x * (c * c) + 1"
    using s2 unfolding s3 x_def c_def .
  have num: "\<bar>of_int num :: rat\<bar> \<le> x * (c * c) + 2"
    using s1 s2' by linarith
  have "\<bar>of_int num / of_int (2 ^ k) :: rat\<bar> = \<bar>of_int num\<bar> / c" by (simp add: c_def)
  also have "\<dots> \<le> (x * (c * c) + 2) / c"
    using num c1 by (intro divide_right_mono) simp_all
  also have "\<dots> = x * c + 2 / c"
    using c1 by (simp add: add_divide_distrib)
  also have "\<dots> \<le> x * c + 2"
  proof -
    have "2 / c \<le> 2 / 1" using c1 by (intro divide_left_mono) simp_all
    then show ?thesis by simp
  qed
  also have "\<dots> \<le> 2 powi (D + 1) * 2 powi (- q) + 2"
  proof -
    have A: "x \<le> 2 powi (D + 1)"
      using bit_length_ratio_upper [OF m, of n] by (simp add: D_def x_def)
    have B: "c = 2 powi (- q)" unfolding c_def using kq by (metis power_int_of_nat)
    have "x * 2 powi (- q) \<le> 2 powi (D + 1) * 2 powi (- q)"
      using A by (rule mult_right_mono) simp
    then show ?thesis by (simp only: B add_le_cancel_right)
  qed
  also have "\<dots> = 2 powi (D + 1 - q) + 2" by (simp add: power_int_add [symmetric])
  also have "\<dots> \<le> 2 powi 81 + 2"
  proof -
    have "D + 1 - q \<le> 81" using q2 D by linarith
    then have "(2::rat) powi (D + 1 - q) \<le> 2 powi 81" by (intro power_int_increasing) simp_all
    then show ?thesis by simp
  qed
  also have "\<dots> \<le> 2 ^ 82" by simp
  finally have "\<bar>of_int num / of_int (2 ^ k) :: rat\<bar> \<le> 2 ^ 82" .
  then have "\<bar>of_int num / of_int (2 ^ k) :: rat\<bar> < pow2 1023" by (rule less_pow2_1023) simp
  from int_truediv_bounded [OF _ this] obtain r where "int_truediv num (2 ^ k) = Inr (Fin r)"
    by auto
  then show ?thesis by (simp add: fs)
qed

lemma stdev_returns:
  assumes "2 \<le> length data" and "\<forall>x \<in> set data. \<bar>x\<bar> \<le> 4000000"
  shows "\<exists>v. stdev data = Inr v"
proof -
  define n where "n = int (length data)"
  define sx where "sx = sum_list data"
  define sxx where "sxx = sum_list (map (\<lambda>x. x * x) data)"
  define A where "A = n * sxx - sx * sx"
  define K where "K = n * (n - 1)"
  have n: "2 \<le> n" using assms(1) by (simp add: n_def)
  have sx: "\<bar>sx\<bar> \<le> 4000000 * n"
    using sum_list_abs_le [OF assms(2)] by (simp add: sx_def n_def)
  have sxx: "0 \<le> sxx" "sxx \<le> 4000000 * 4000000 * n"
    using sum_list_squares_le [OF _ assms(2)] by (simp_all add: sxx_def n_def)
  have "sx * sx = \<bar>sx\<bar> * \<bar>sx\<bar>" by simp
  also have "\<dots> \<le> (4000000 * n) * (4000000 * n)" using sx by (intro mult_mono) simp_all
  finally have sx2: "sx * sx \<le> 16000000000000 * (n * n)" by simp
  define P where "P = n * sxx"
  define Q where "Q = sx * sx"
  define C where "C = 16000000000000 * (n * n)"
  have "0 \<le> Q" by (simp add: Q_def)
  moreover have "Q \<le> C" using sx2 by (simp add: Q_def C_def)
  moreover have "n * sxx \<le> n * (4000000 * 4000000 * n)"
    using sxx(2) n by (intro mult_left_mono) simp_all
  then have "P \<le> C" by (simp add: P_def C_def algebra_simps)
  moreover have "0 \<le> P" using sxx(1) n by (simp add: P_def)
  ultimately have "\<bar>P - Q\<bar> \<le> C" by linarith
  then have A: "\<bar>A\<bar> \<le> 16000000000000 * (n * n)" by (simp add: A_def P_def Q_def C_def)
  have "0 \<le> n * (n - 2)" using n by simp
  then have nn: "n * n \<le> 2 * K" by (simp add: K_def algebra_simps)
  have K: "0 < K" using n by (simp add: K_def)
  have AK: "\<bar>A\<bar> \<le> 32000000000000 * K" using A nn by linarith
  have "(of_int \<bar>A\<bar> :: rat) \<le> of_int (32000000000000 * K)" using AK by (simp only: of_int_le_iff)
  then have "\<bar>of_int A :: rat\<bar> \<le> 32000000000000 * of_int K" by simp
  then have "\<bar>of_int A / of_int K :: rat\<bar> \<le> 32000000000000"
    using K by (simp add: pos_divide_le_eq)
  then have mss: "\<bar>of_int A / of_int K :: rat\<bar> \<le> 2 ^ 50" by simp
  obtain p d where pd: "quotient_of (of_int A / of_int K) = (p, d)"
    by (cases "quotient_of (of_int A / of_int K)")
  then have d: "0 < d" and qe: "of_int A / of_int K = (of_int p / of_int d :: rat)"
    using quotient_of_denom_pos quotient_of_div by blast+
  from float_sqrt_of_frac_returns [OF d] mss obtain r where
    r: "float_sqrt_of_frac p d = Inr (Fin r)" by (auto simp: qe)
  have "(of_int n * of_int sxx - of_int sx * of_int sx) / of_int n / of_int (n - 1) =
          (of_int A / of_int K :: rat)"
    by (simp add: A_def K_def)
  then show ?thesis
    using n pd r by (simp add: stdev_def Let_def n_def [symmetric] sx_def [symmetric]
        sxx_def [symmetric])
qed

lemma intervals_bounded:
  assumes "\<forall>d \<in> set dates. 0 \<le> toordinal d \<and> toordinal d \<le> 4000000"
  shows "\<forall>x \<in> set (map (\<lambda>i. toordinal (dates ! i) - toordinal (dates ! (i - 1)))
                       [1..<length dates]). \<bar>x\<bar> \<le> 4000000"
proof -
  have "\<bar>toordinal (dates ! i) - toordinal (dates ! (i - 1))\<bar> \<le> 4000000"
    if "i < length dates" for i
  proof -
    have "dates ! i \<in> set dates" "dates ! (i - 1) \<in> set dates" using that by simp_all
    with assms have "0 \<le> toordinal (dates ! i)" "toordinal (dates ! i) \<le> 4000000"
      "0 \<le> toordinal (dates ! (i - 1))" "toordinal (dates ! (i - 1)) \<le> 4000000" by blast+
    then show ?thesis by linarith
  qed
  then show ?thesis by auto
qed


section \<open>A negative baseline amount (claim C8)\<close>

lemma round64_cases:
  "round64 q = PInf \<or> round64 q = NInf \<or> (\<exists>r. round64 q = Fin r)"
  using round64_nonneg_cases [of q] round64_nonpos_cases [of q] by (cases "0 \<le> q") auto

lemma round64_not_NaN: "round64 q \<noteq> NaN"
  using round64_cases [of q] by auto

lemma literal_0_05: "round64 (1 / 20) = Fin (3602879701896397 / 72057594037927936)"
  by code_simp

lemma round64_1: "round64 1 = Fin 1"
  by code_simp

lemma flt_le_nonpos_0_05:
  "v = NInf \<or> (\<exists>r. r \<le> 0 \<and> v = Fin r) \<Longrightarrow> flt_le v (round64 (1 / 20))"
  by (auto simp: literal_0_05 flt_le_def)

lemma ratio_negative_base:
  assumes "b < 0" and "amt \<noteq> NaN"
  shows "\<exists>v. flt_div (flt_abs (flt_sub amt (Fin b))) (Fin b) = Inr v \<and>
             flt_le v (round64 (1 / 20))"
proof -
  have "flt_sub amt (Fin b) \<noteq> NaN"
    using assms(2) by (cases amt) (simp_all add: flt_sub_def flt_neg_def round64_not_NaN)
  then consider x where "flt_abs (flt_sub amt (Fin b)) = Fin x" "0 \<le> x"
    | "flt_abs (flt_sub amt (Fin b)) = PInf"
    by (cases "flt_sub amt (Fin b)") (auto simp: flt_abs_def)
  then show ?thesis
  proof cases
    case 1
    have "x / b \<le> 0" using 1(2) assms(1) by (simp add: divide_nonneg_neg)
    from round64_nonpos_cases [OF this] have "flt_le (round64 (x / b)) (round64 (1 / 20))"
      by (intro flt_le_nonpos_0_05) auto
    then show ?thesis using 1 assms(1) by simp
  next
    case 2
    have "flt_le NInf (round64 (1 / 20))" by (intro flt_le_nonpos_0_05) simp
    then show ?thesis using 2 assms(1) by simp
  qed
qed

lemma count_consistent_negative_base:
  assumes "b < 0"
  shows "\<forall>a \<in> set amts. a \<noteq> NaN \<Longrightarrow> count_consistent (Fin b) amts = Inr (int (length amts))"
proof (induction amts)
  case Nil
  then show ?case by simp
next
  case (Cons a amts)
  then have "a \<noteq> NaN" by simp
  from ratio_negative_base [OF assms this] obtain v where
    "flt_div (flt_abs (flt_sub a (Fin b))) (Fin b) = Inr v" "flt_le v (round64 (1 / 20))" by blast
  then show ?case using Cons by simp
qed

lemma int_truediv_self: "0 < n \<Longrightarrow> int_truediv n n = Inr (Fin 1)"
  by (simp add: int_truediv_def round64_1)

lemma intervals_result:
  assumes len: "2 \<le> length transactions"
    and parsed: "sequence_err (map (\<lambda>trans. strptime (date trans)) transactions) = Inr parsed"
    and dates: "dates = sort_key (\<lambda>d. (year d, month d, day d)) parsed"
    and intervals: "intervals = map (\<lambda>i. toordinal (dates ! i) - toordinal (dates ! (i - 1)))
                                  [1..<length dates]"
    and nonempty: "intervals \<noteq> []"
    and avg: "mean intervals = Inr avg_days"
    and sd: "(if 1 < length intervals then stdev intervals else Inr (Fin 0)) = Inr std_dev_days"
    and mr: "int_truediv (int (length (filter (\<lambda>gap. 23 \<le> gap \<and> gap \<le> 38) intervals)))
               (int (length intervals)) = Inr monthly_recurrence"
    and base: "amount (hd transactions) = Fin b" "b \<noteq> 0"
    and cons: "bind_err (count_consistent (Fin b) (map amount transactions))
                 (\<lambda>c. int_truediv c (int (length transactions))) = Inr consistent_amount"
  shows "get_transaction_intervals transactions =
           Inr [(''avg_days_between_transactions'', avg_days),
                (''std_dev_days_between_transactions'', PyFloat std_dev_days),
                (''monthly_recurrence'', PyFloat monthly_recurrence),
                (''same_weekday'',
                   PyInt (if length (remdups (map weekday dates)) = 1 then 1 else 0)),
                (''same_amount'', PyFloat consistent_amount)]"
proof -
  obtain t ts where tts: "transactions = t # ts" using len by (cases transactions) auto
  have nz: "\<not> flt_eq (Fin b) (Fin 0)" using base(2) by (simp add: flt_eq_def)
  have b: "amount t = Fin b" using base(1) tts by simp
  have "\<not> length transactions < 2" using len by simp
  then show ?thesis
    unfolding get_transaction_intervals_def
    apply (simp only: if_False parsed bind_err_Inr Let_def dates [symmetric] intervals [symmetric])
    apply (simp only: nonempty avg sd mr bind_err_Inr if_True not_False_eq_True)
    unfolding tts
    apply (simp only: list.map list.case b nz if_False)
    using cons unfolding tts
    apply (simp add: b)
    done
qed

text \<open>
  Claim C8, amended. For a history of at least two entries whose dates are all accepted
  by \<open>strptime\<close>, whose first amount (in the given order) is a finite, strictly negative
  number and none of whose amounts is NaN, \<open>get_transaction_intervals\<close> returns a record
  with \<open>same_amount = 1.0\<close>, whatever the other amounts are: the quotient
  \<open>abs(amt - base) / base\<close> is never above zero.
\<close>

theorem negative_baseline_same_amount:
  assumes len: "2 \<le> length transactions"
    and parse: "\<forall>t \<in> set transactions. \<exists>d. strptime (date t) = Inr d"
    and base: "amount (hd transactions) = Fin b" "b < 0"
    and nonan: "\<forall>t \<in> set transactions. amount t \<noteq> NaN"
  shows "feature (get_transaction_intervals transactions) ''same_amount'' =
           Some (PyFloat (Fin 1))"
proof -
  have "\<forall>r \<in> set (map (\<lambda>trans. strptime (date trans)) transactions). \<exists>v. r = Inr v"
    using parse by auto
  from sequence_err_all_Inr [OF this] obtain parsed where
    seq: "sequence_err (map (\<lambda>trans. strptime (date trans)) transactions) = Inr parsed"
    and mp: "map Inr parsed = map (\<lambda>trans. strptime (date trans)) transactions" by blast
  have lp: "length parsed = length transactions"
    using mp by (metis length_map)
  have valid: "0 \<le> toordinal d \<and> toordinal d \<le> 4000000" if "d \<in> set parsed" for d
  proof -
    from that have "Inr d \<in> set (map (\<lambda>trans. strptime (date trans)) transactions)"
      unfolding mp [symmetric] by simp
    then obtain t where "t \<in> set transactions" and "strptime (date t) = Inr d" by auto
    from strptime_valid [OF this(2)] show ?thesis by (intro toordinal_bounds) simp_all
  qed
  define dates where "dates = sort_key (\<lambda>d. (year d, month d, day d)) parsed"
  define intervals where
    "intervals = map (\<lambda>i. toordinal (dates ! i) - toordinal (dates ! (i - 1))) [1..<length dates]"
  have ld: "length dates = length transactions" by (simp add: dates_def lp)
  have "\<forall>d \<in> set dates. 0 \<le> toordinal d \<and> toordinal d \<le> 4000000"
    using valid by (simp add: dates_def)
  from intervals_bounded [OF this]
  have bounded: "\<forall>x \<in> set intervals. \<bar>x\<bar> \<le> 4000000" by (simp add: intervals_def)
  have li: "length intervals = length transactions - 1" by (simp add: intervals_def ld)
  then have nonempty: "intervals \<noteq> []" using len by auto
  from mean_returns [OF nonempty bounded] obtain avg_days where
    avg: "mean intervals = Inr avg_days" ..
  have "\<exists>v. (if 1 < length intervals then stdev intervals else Inr (Fin 0)) = Inr v"
    using stdev_returns [OF _ bounded] by auto
  then obtain std_dev_days where
    sd: "(if 1 < length intervals then stdev intervals else Inr (Fin 0)) = Inr std_dev_days" ..
  have "\<exists>r. int_truediv (int (length (filter (\<lambda>gap. 23 \<le> gap \<and> gap \<le> 38) intervals)))
              (int (length intervals)) = Inr (Fin r)"
    using nonempty by (intro int_truediv_fraction) simp_all
  then obtain r where
    mr: "int_truediv (int (length (filter (\<lambda>gap. 23 \<le> gap \<and> gap \<le> 38) intervals)))
           (int (length intervals)) = Inr (Fin r)" ..
  have "count_consistent (Fin b) (map amount transactions) =
          Inr (int (length (map amount transactions)))"
    using nonan by (intro count_consistent_negative_base [OF base(2)]) simp
  moreover have "int_truediv (int (length transactions)) (int (length transactions)) =
                   Inr (Fin 1)"
    using len by (intro int_truediv_self) auto
  ultimately have cons: "bind_err (count_consistent (Fin b) (map amount transactions))
                     (\<lambda>c. int_truediv c (int (length transactions))) = Inr (Fin 1)"
    by simp
  have "b \<noteq> 0" using base(2) by simp
  from intervals_result [OF len seq dates_def intervals_def nonempty avg sd mr base(1) this cons]
  show ?thesis by (simp add: feature_def)
qed


theorem negative_baseline_same_amount_witness:
  "2 \<le> length [tx ''a'' ''2024-03-01'' (Fin (- 5)), tx ''b'' ''2024-01-15'' (Fin 700),
                tx ''c'' ''2024-02-01'' PInf] \<and>
   strptime ''2024-03-01'' = Inr \<lparr>year = 2024, month = 3, day = 1\<rparr> \<and>
   strptime ''2024-01-15'' = Inr \<lparr>year = 2024, month = 1, day = 15\<rparr> \<and>
   strptime ''2024-02-01'' = Inr \<lparr>year = 2024, month = 2, day = 1\<rparr> \<and>
   feature (get_transaction_intervals
              [tx ''a'' ''2024-03-01'' (Fin (- 5)), tx ''b'' ''2024-01-15'' (Fin 700),
               tx ''c'' ''2024-02-01'' PInf]) ''same_amount'' = Some (PyFloat (Fin 1))"
proof -
  have d: "strptime ''2024-03-01'' = Inr \<lparr>year = 2024, month = 3, day = 1\<rparr>"
    "strptime ''2024-01-15'' = Inr \<lparr>year = 2024, month = 1, day = 15\<rparr>"
    "strptime ''2024-02-01'' = Inr \<lparr>year = 2024, month = 2, day = 1\<rparr>"
    by code_simp+
  have "feature (get_transaction_intervals
              [tx ''a'' ''2024-03-01'' (Fin (- 5)), tx ''b'' ''2024-01-15'' (Fin 700),
               tx ''c'' ''2024-02-01'' PInf]) ''same_amount'' = Some (PyFloat (Fin 1))"
    using d by (intro negative_baseline_same_amount [where b = "- 5"]) (simp_all add: tx_def)
  then show ?thesis using d by simp
qed

text \<open>
  The claim as stated fails in three ways: a date that \<open>strptime\<close> rejects raises
  \<open>ValueError\<close>; a NaN among the other amounts fails the comparison, so that
  \<open>same_amount\<close> is \<open>0.5\<close>; and the baseline minus infinity makes every quotient NaN, so
  that \<open>same_amount\<close> is \<open>0.0\<close>.
\<close>

theorem negative_baseline_same_amount_counterexample:
  "get_transaction_intervals
     [tx ''a'' ''2024-01-01'' (Fin (- 5)), tx ''a'' ''2024-13-40'' (Fin (- 5))] = Inl ValueError \<and>
   feature (get_transaction_intervals
              [tx ''a'' ''2024-01-01'' (Fin (- 5)), tx ''a'' ''2024-01-15'' NaN])
     ''same_amount'' = Some (PyFloat (Fin (1 / 2))) \<and>
   feature (get_transaction_intervals
              [tx ''a'' ''2024-01-01'' NInf, tx ''a'' ''2024-01-15'' (Fin 3)])
     ''same_amount'' = Some (PyFloat (Fin 0))"
  by code_simp


end
